theory Spec2Isabelle
  imports Main
begin

section \<open>JavaScript values\<close>

text \<open>
  The two bridge scripts (\<^verbatim>\<open>Sonoff_to_Z2M.js\<close> and the Tasmota bridge) are ioBroker
  JavaScript. Their values are modelled by one datatype. Numbers are the integers that a
  JavaScript number holds exactly and prints in plain decimal, those below \<open>2^53\<close> in
  magnitude (the scripts only count, index and compare integer codes); strings are ASCII
  character lists, and an object is the ordered list of its own properties.
\<close>

datatype jsval =
    JUndefined
  | JNull
  | JBool bool
  | JNum int
  | JStr string
  | JArr "jsval list"
  | JObj "(string \<times> jsval) list"

text \<open>The exceptions the scripts can meet: a failed \<^verbatim>\<open>JSON.parse\<close> and a property
  read or method call on a value that does not have it.\<close>

datatype js_error = TypeError | SyntaxError

text \<open>Truthiness, as used by \<^verbatim>\<open>!x\<close>, \<^verbatim>\<open>x ? a : b\<close> and \<^verbatim>\<open>a || b\<close>.\<close>

fun truthy :: "jsval \<Rightarrow> bool" where
  "truthy JUndefined = False"
| "truthy JNull = False"
| "truthy (JBool b) = b"
| "truthy (JNum n) = (n \<noteq> 0)"
| "truthy (JStr s) = (s \<noteq> [])"
| "truthy (JArr xs) = True"
| "truthy (JObj kvs) = True"

definition js_or :: "jsval \<Rightarrow> jsval \<Rightarrow> jsval" where
  "js_or a b = (if truthy a then a else b)"

text \<open>Decimal rendering of a number inside a template literal.\<close>

definition digit_char :: "nat \<Rightarrow> char" where
  "digit_char d = ''0123456789'' ! d"

fun show_nat :: "nat \<Rightarrow> string" where
  "show_nat n = (if n < 10 then [digit_char n] else show_nat (n div 10) @ [digit_char (n mod 10)])"

declare show_nat.simps [simp del]

definition show_int :: "int \<Rightarrow> string" where
  "show_int n = (if n < 0 then CHR ''-'' # show_nat (nat (- n)) else show_nat (nat n))"

fun join_comma :: "string list \<Rightarrow> string" where
  "join_comma [] = []"
| "join_comma [x] = x"
| "join_comma (x # y # ys) = x @ '','' @ join_comma (y # ys)"

text \<open>\<^verbatim>\<open>String(v)\<close>, which is also what a template literal \<^verbatim>\<open>${v}\<close> inserts. A number
  is rendered in plain decimal, as JavaScript does below \<open>10^21\<close>.\<close>

fun to_String :: "jsval \<Rightarrow> string" where
  "to_String JUndefined = ''undefined''"
| "to_String JNull = ''null''"
| "to_String (JBool b) = (if b then ''true'' else ''false'')"
| "to_String (JNum n) = show_int n"
| "to_String (JStr s) = s"
| "to_String (JArr xs) =
     join_comma (map (\<lambda>x. if x = JNull \<or> x = JUndefined then [] else to_String x) xs)"
| "to_String (JObj kvs) = ''[object Object]''"

text \<open>Property read \<^verbatim>\<open>v.k\<close> for the keys the scripts use (none of them is a built-in
  property of a string, number or array): it throws on \<^verbatim>\<open>null\<close> and
  \<^verbatim>\<open>undefined\<close> and gives \<^verbatim>\<open>undefined\<close> for a missing key.\<close>

fun get_prop :: "jsval \<Rightarrow> string \<Rightarrow> js_error + jsval" where
  "get_prop JUndefined k = Inl TypeError"
| "get_prop JNull k = Inl TypeError"
| "get_prop (JObj kvs) k = Inr (case map_of kvs k of Some v \<Rightarrow> v | None \<Rightarrow> JUndefined)"
| "get_prop v k = Inr JUndefined"

text \<open>The operator \<^verbatim>\<open>k in v\<close>: a type error unless \<open>v\<close> is an object or an array.\<close>

fun has_key :: "string \<Rightarrow> jsval \<Rightarrow> js_error + bool" where
  "has_key k (JObj kvs) = Inr (k \<in> fst ` set kvs)"
| "has_key k (JArr xs) = Inr False"
| "has_key k v = Inl TypeError"

definition lower_letters :: string where
  "lower_letters = ''abcdefghijklmnopqrstuvwxyz''"

definition upper_letters :: string where
  "upper_letters = ''ABCDEFGHIJKLMNOPQRSTUVWXYZ''"

definition upper_char :: "char \<Rightarrow> char" where
  "upper_char c = (case map_of (zip lower_letters upper_letters) c of Some u \<Rightarrow> u | None \<Rightarrow> c)"

definition lower_char :: "char \<Rightarrow> char" where
  "lower_char c = (case map_of (zip upper_letters lower_letters) c of Some l \<Rightarrow> l | None \<Rightarrow> c)"

text \<open>The method calls \<^verbatim>\<open>v.toUpperCase()\<close> and \<^verbatim>\<open>v.toLowerCase()\<close>: only a
  string has them.\<close>

fun toUpperCase :: "jsval \<Rightarrow> js_error + string" where
  "toUpperCase (JStr s) = Inr (map upper_char s)"
| "toUpperCase v = Inl TypeError"

fun toLowerCase :: "jsval \<Rightarrow> js_error + string" where
  "toLowerCase (JStr s) = Inr (map lower_char s)"
| "toLowerCase v = Inl TypeError"

text \<open>Array read \<^verbatim>\<open>xs[i]\<close> (\<^verbatim>\<open>undefined\<close> past the end) and array write
  \<^verbatim>\<open>xs[i] = v\<close> (which extends the array past the end).\<close>

definition js_nth :: "jsval list \<Rightarrow> nat \<Rightarrow> jsval" where
  "js_nth xs i = (if i < length xs then xs ! i else JUndefined)"

definition js_set :: "jsval list \<Rightarrow> nat \<Rightarrow> jsval \<Rightarrow> jsval list" where
  "js_set xs i v =
     (if i < length xs then xs[i := v] else xs @ replicate (i - length xs) JUndefined @ [v])"

text \<open>Property write \<^verbatim>\<open>o[k] = v\<close> on an object literal: an existing key keeps its
  place, a new key goes last.\<close>

fun obj_set :: "(string \<times> jsval) list \<Rightarrow> string \<Rightarrow> jsval \<Rightarrow> (string \<times> jsval) list" where
  "obj_set [] k v = [(k, v)]"
| "obj_set ((k', v') # kvs) k v = (if k' = k then (k, v) # kvs else (k', v') # obj_set kvs k v)"

section \<open>The host: ioBroker and the JavaScript runtime\<close>

text \<open>
  What the scripts call and do not define: the state store (\<^verbatim>\<open>getState\<close>, \<open>None\<close>
  when the state does not exist, else its \<^verbatim>\<open>val\<close>), the selector \<^verbatim>\<open>$(pattern)\<close> (the
  ids it matches, in order), \<^verbatim>\<open>JSON.parse\<close> (\<open>None\<close> when it throws) and the
  runtime's conversion of a string to a number (\<open>None\<close> for NaN).
\<close>

record env =
  getState :: "string \<Rightarrow> jsval option"
  select :: "string \<Rightarrow> string list"
  JSON_parse :: "string \<Rightarrow> jsval option"
  StringToNumber :: "string \<Rightarrow> int option"

text \<open>What a handler does to the outside: a message handed to the MQTT adapter, a write
  to a state of the native side, a line of the log. \<^verbatim>\<open>logDebug\<close> prints nothing
  under the shipped \<^verbatim>\<open>CONFIG.debug = false\<close>. A logged message is given without the
  engine's \<^verbatim>\<open>e.message\<close> text that the scripts append to it.\<close>

datatype 'd payload =
    Value jsval
  | BridgeInfo
  | DeviceList "'d list"

datatype 'd effect =
    Publish string "'d payload"
  | SetState string jsval
  | LogInfo string
  | LogError string

text \<open>JavaScript's \<^verbatim>\<open>Map\<close>, in insertion order: \<^verbatim>\<open>set\<close> replaces the value of a
  known key in place and appends a new one.\<close>

fun Map_set :: "('k \<times> 'v) list \<Rightarrow> 'k \<Rightarrow> 'v \<Rightarrow> ('k \<times> 'v) list" where
  "Map_set [] k v = [(k, v)]"
| "Map_set ((k', v') # m) k v = (if k' = k then (k, v) # m else (k', v') # Map_set m k v)"

definition Map_get :: "('k \<times> 'v) list \<Rightarrow> 'k \<Rightarrow> 'v option" where
  "Map_get m k = map_of m k"

text \<open>A handler that finds an entry by scanning the map and then assigns to a field of
  the object it found changes that entry where it stands.\<close>

fun mutate_first :: "('v \<Rightarrow> bool) \<Rightarrow> ('v \<Rightarrow> 'v) \<Rightarrow> ('k \<times> 'v) list \<Rightarrow> ('k \<times> 'v) list" where
  "mutate_first P f [] = []"
| "mutate_first P f ((k, v) # m) = (if P v then (k, f v) # m else (k, v) # mutate_first P f m)"

definition find_first :: "('v \<Rightarrow> bool) \<Rightarrow> ('k \<times> 'v) list \<Rightarrow> 'v option" where
  "find_first P m = map_option snd (find (\<lambda>kv. P (snd kv)) m)"

section \<open>The Sonoff bridge (Sonoff_to_Z2M.js)\<close>

definition sonoffAdapter :: string where
  "sonoffAdapter = ''sonoff.0''"

definition z2mBaseTopic :: string where
  "z2mBaseTopic = ''zigbee2mqtt''"

definition getStateValue :: "env \<Rightarrow> string \<Rightarrow> jsval" where
  "getStateValue e stateId = (case getState e stateId of Some v \<Rightarrow> v | None \<Rightarrow> JNull)"

text \<open>\<^verbatim>\<open>mac.replace(/:/g, '').toLowerCase()\<close> with the prefix \<^verbatim>\<open>0x0000\<close>.\<close>

fun macToIeee :: "jsval \<Rightarrow> js_error + string" where
  "macToIeee (JStr mac) = Inr (''0x0000'' @ map lower_char (filter (\<lambda>c. c \<noteq> CHR '':'') mac))"
| "macToIeee v = Inl TypeError"

text \<open>The operand of \<^verbatim>\<open>value >= 224\<close> as a number.\<close>

fun to_number :: "env \<Rightarrow> jsval \<Rightarrow> int option" where
  "to_number e JUndefined = None"
| "to_number e JNull = Some 0"
| "to_number e (JBool b) = Some (if b then 1 else 0)"
| "to_number e (JNum n) = Some n"
| "to_number e v = StringToNumber e (to_String v)"

definition relay_value :: "env \<Rightarrow> jsval \<Rightarrow> bool" where
  "relay_value e v =
     (v \<noteq> JNull \<and>
      (case to_number e v of
         None \<Rightarrow> False
       | Some n \<Rightarrow> (n \<ge> 224 \<and> n \<le> 251) \<or> (n \<ge> 256 \<and> n \<le> 283)))"

definition parseGPIOs :: "env \<Rightarrow> string \<Rightarrow> nat" where
  "parseGPIOs e friendlyName =
     length (filter (\<lambda>stateId. relay_value e (getStateValue e stateId))
       (select e (sonoffAdapter @ ''.'' @ friendlyName @ ''.GPIO_*'')))"

subsection \<open>The device record and its Zigbee2MQTT description\<close>

record feature =
  f_access :: nat
  f_endpoint :: string
  f_name :: string
  f_property :: string
  f_type :: string
  f_value_off :: string
  f_value_on :: string
  f_value_toggle :: string

datatype expose =
    SwitchExpose (e_endpoint: string) (e_features: "feature list")
  | NumericExpose (n_name: string) (n_property: string) (n_value_min: int) (n_value_max: int)

record endpoint =
  ep_name :: string
  ep_input_clusters :: "string list"

text \<open>The fields of the definition that depend on the device, and the interview flags.
  The constant fields, the network address and the date code are left out.\<close>

record z2mDevice =
  ieee_address :: string
  friendly_name :: string
  model_id :: jsval
  exposes :: "expose list"
  endpoints :: "(string \<times> endpoint) list"
  interview_completed :: bool
  interviewing :: bool
  interview_state :: string
  software_build_id :: jsval

record deviceInfo =
  mac :: jsval
  friendlyName :: string
  model :: jsval
  version :: jsval
  relayCount :: nat
  lastStates :: "jsval list"
  lastAvailable :: jsval

text \<open>\<^verbatim>\<open>deviceInfo.z2mDevice = z2mDevice\<close> completes the record that the map stores.\<close>

record device = deviceInfo +
  z2mDevice :: z2mDevice

definition attach :: "deviceInfo \<Rightarrow> z2mDevice \<Rightarrow> device" where
  "attach info z = deviceInfo.extend info (device.fields z)"

definition switch_expose :: "nat \<Rightarrow> nat \<Rightarrow> expose" where
  "switch_expose n i =
     SwitchExpose (''l'' @ show_nat i)
       [\<lparr>f_access = 7, f_endpoint = ''l'' @ show_nat i, f_name = ''state'',
         f_property = (if n = 1 then ''state'' else ''state_l'' @ show_nat i),
         f_type = ''binary'', f_value_off = ''OFF'', f_value_on = ''ON'',
         f_value_toggle = ''TOGGLE''\<rparr>]"

definition linkquality_expose :: expose where
  "linkquality_expose = NumericExpose ''linkquality'' ''linkquality'' 0 255"

definition endpoint_entry :: "nat \<Rightarrow> string \<times> endpoint" where
  "endpoint_entry i =
     (show_nat i,
      \<lparr>ep_name = ''l'' @ show_nat i,
       ep_input_clusters = [''genBasic'', ''genIdentify'', ''genOnOff'']\<rparr>)"

definition createZ2MDeviceDefinition :: "deviceInfo \<Rightarrow> js_error + z2mDevice" where
  "createZ2MDeviceDefinition info =
     (case macToIeee (mac info) of
        Inl err \<Rightarrow> Inl err
      | Inr ieee \<Rightarrow>
          Inr \<lparr>ieee_address = ieee,
               friendly_name = friendlyName info,
               model_id = js_or (model info) (JStr ''Generic''),
               exposes =
                 (if relayCount info > 0
                  then map (switch_expose (relayCount info)) [1 ..< Suc (relayCount info)]
                  else []) @ [linkquality_expose],
               endpoints = map endpoint_entry [1 ..< Suc (relayCount info)],
               interview_completed = True,
               interviewing = False,
               interview_state = ''SUCCESSFUL'',
               software_build_id = js_or (version info) (JStr ''1.0.0'')\<rparr>)"

subsection \<open>The registry and the outward publishes\<close>

record bridge =
  sonoffDevices :: "(jsval \<times> device) list"
  initialized :: bool

type_synonym seffect = "z2mDevice effect"

definition publishMqtt :: "string \<Rightarrow> 'd payload \<Rightarrow> 'd effect list" where
  "publishMqtt topic p = [Publish (z2mBaseTopic @ ''/'' @ topic) p]"

definition on_off :: "jsval \<Rightarrow> jsval" where
  "on_off v = JStr (if truthy v then ''ON'' else ''OFF'')"

definition state_payload :: "nat \<Rightarrow> jsval list \<Rightarrow> (string \<times> jsval) list" where
  "state_payload n states =
     (if n = 1 then obj_set [(''linkquality'', JNum 255)] ''state'' (on_off (js_nth states 0))
      else fold (\<lambda>i p. obj_set p (''state_l'' @ show_nat (i + 1)) (on_off (js_nth states i)))
             [0 ..< n] [(''linkquality'', JNum 255)])"

definition availability_payload :: "bool \<Rightarrow> 'd payload" where
  "availability_payload available =
     Value (JObj [(''state'', JStr (if available then ''online'' else ''offline''))])"

text \<open>The parameter \<^verbatim>\<open>available = true\<close>: the default stands in for an argument that is
  \<^verbatim>\<open>undefined\<close>.\<close>

definition default_true :: "jsval \<Rightarrow> jsval" where
  "default_true v = (if v = JUndefined then JBool True else v)"

definition publishDeviceState ::
  "(jsval \<times> device) list \<Rightarrow> jsval \<Rightarrow> jsval list \<Rightarrow> jsval \<Rightarrow> seffect list" where
  "publishDeviceState devices m states available =
     (case Map_get devices m of
        None \<Rightarrow> []
      | Some dev \<Rightarrow>
          publishMqtt (friendly_name (z2mDevice dev))
            (Value (JObj (state_payload (relayCount dev) states))) @
          publishMqtt (friendly_name (z2mDevice dev) @ ''/availability'')
            (availability_payload (truthy (default_true available))))"

subsection \<open>Discovery\<close>

definition powerStateId :: "string \<Rightarrow> nat \<Rightarrow> nat \<Rightarrow> string" where
  "powerStateId name n i =
     (if n = 1 then sonoffAdapter @ ''.'' @ name @ ''.POWER''
      else sonoffAdapter @ ''.'' @ name @ ''.POWER'' @ show_nat i)"

text \<open>One round of the loop that reads the initial power states: the pair is
  \<^verbatim>\<open>initialStates\<close> and \<^verbatim>\<open>deviceInfo.lastStates\<close>.\<close>

definition read_power ::
  "env \<Rightarrow> string \<Rightarrow> nat \<Rightarrow> nat \<Rightarrow> jsval list \<times> jsval list \<Rightarrow> jsval list \<times> jsval list" where
  "read_power e name n i acc =
     (let power = getStateValue e (powerStateId name n i) in
      (fst acc @ [if power \<noteq> JNull then power else JBool False],
       if power \<noteq> JNull then js_set (snd acc) (i - 1) power else snd acc))"

definition processSonoffDevice :: "env \<Rightarrow> bridge \<Rightarrow> string \<Rightarrow> bridge \<times> seffect list" where
  "processSonoffDevice e st name =
     (let m = getStateValue e (sonoffAdapter @ ''.'' @ name @ ''.STATUS.StatusNET_Mac'') in
      if \<not> truthy m then (st, [])
      else
        let mdl = getStateValue e (sonoffAdapter @ ''.'' @ name @ ''.INFO.Info1_Module'');
            ver = getStateValue e (sonoffAdapter @ ''.'' @ name @ ''.INFO.Info1_Version'');
            n = parseGPIOs e name
        in
        if n = 0 \<or> n > 28
        then (st, [LogInfo (''Device '' @ name @ '' has '' @ show_nat n @
                     '' relay(s), skipping (must have 1-28 relays)'')])
        else
          let info = \<lparr>mac = m, friendlyName = name, model = mdl, version = ver,
                       relayCount = n, lastStates = replicate n JNull, lastAvailable = JNull\<rparr>
          in
          case createZ2MDeviceDefinition info of
            Inl err \<Rightarrow> (st, [LogError (''Error processing device '' @ name @ '': '')])
          | Inr z \<Rightarrow>
              let read = fold (read_power e name n) [1 ..< Suc n] ([], lastStates info);
                  initialStates = fst read;
                  alive = getStateValue e (sonoffAdapter @ ''.'' @ name @ ''.alive'');
                  dev = (attach info z)
                          \<lparr>lastStates := snd read,
                           lastAvailable := (if alive \<noteq> JNull then alive else JNull)\<rparr>;
                  devices = Map_set (sonoffDevices st) m dev
              in
              (st\<lparr>sonoffDevices := devices\<rparr>,
               LogInfo (''Discovered Sonoff device: '' @ name @ '' ('' @ to_String m @
                  '') - Model: '' @ to_String mdl @ '', Version: '' @ to_String ver @
                  '', Relays: '' @ show_nat n) #
               (if initialized st \<and> alive \<noteq> JNull
                then publishDeviceState devices m initialStates alive else [])))"

subsection \<open>Native state and availability events\<close>

text \<open>\<^verbatim>\<open>x === true || x === 'true' || x === 1\<close>\<close>

definition is_true :: "jsval \<Rightarrow> bool" where
  "is_true x = (x = JBool True \<or> x = JStr ''true'' \<or> x = JNum 1)"

text \<open>\<open>relayNum\<close> is a JavaScript number: \<open>None\<close> stands for NaN, which fails both
  comparisons of the range check.\<close>

definition handleSonoffPowerChange ::
  "bridge \<Rightarrow> string \<Rightarrow> int option \<Rightarrow> jsval \<Rightarrow> bridge \<times> seffect list" where
  "handleSonoffPowerChange st name relayNum state =
     (case find_first (\<lambda>dev. friendlyName dev = name) (sonoffDevices st) of
        None \<Rightarrow> (st, [])
      | Some dev \<Rightarrow>
          let newState = is_true state in
          (case relayNum of
             None \<Rightarrow> (st, [])
           | Some num \<Rightarrow>
               let relayIndex = num - 1 in
               if relayIndex \<ge> 0 \<and> relayIndex < int (relayCount dev)
               then
                 if js_nth (lastStates dev) (nat relayIndex) \<noteq> JBool newState
                 then
                   let upd = (\<lambda>d. d\<lparr>lastStates := js_set (lastStates d) (nat relayIndex) (JBool newState)\<rparr>);
                       devices = mutate_first (\<lambda>d. friendlyName d = name) upd (sonoffDevices st);
                       available = (lastAvailable dev \<noteq> JBool False)
                   in (st\<lparr>sonoffDevices := devices\<rparr>,
                       publishDeviceState devices (mac dev) (lastStates (upd dev)) (JBool available))
                 else (st, [])
               else (st, [])))"

definition handleSonoffAliveChange :: "bridge \<Rightarrow> string \<Rightarrow> jsval \<Rightarrow> bridge \<times> seffect list" where
  "handleSonoffAliveChange st name alive =
     (case find_first (\<lambda>dev. friendlyName dev = name) (sonoffDevices st) of
        None \<Rightarrow> (st, [])
      | Some dev \<Rightarrow>
          let available = is_true alive in
          if lastAvailable dev \<noteq> JBool available
          then
            let devices = mutate_first (\<lambda>d. friendlyName d = name)
                            (\<lambda>d. d\<lparr>lastAvailable := JBool available\<rparr>) (sonoffDevices st)
            in (st\<lparr>sonoffDevices := devices\<rparr>,
                publishDeviceState devices (mac dev) (lastStates dev) (JBool available))
          else (st, []))"

subsection \<open>Inbound set commands\<close>

text \<open>The body of the \<^verbatim>\<open>try\<close> block returns what it has written so far and the
  exception that stopped it, if one did.\<close>

definition resolve_state :: "device \<Rightarrow> nat \<Rightarrow> string \<Rightarrow> bool" where
  "resolve_state dev i stateCmd =
     (if stateCmd = ''TOGGLE'' then \<not> truthy (js_nth (lastStates dev) i) else stateCmd = ''ON'')"

definition single_state :: "device \<Rightarrow> jsval \<Rightarrow> seffect list \<times> js_error option" where
  "single_state dev cmd =
     (case has_key ''state'' cmd of
        Inl err \<Rightarrow> ([], Some err)
      | Inr present \<Rightarrow>
          if present \<and> relayCount dev = 1
          then
            (case get_prop cmd ''state'' of
               Inl err \<Rightarrow> ([], Some err)
             | Inr v \<Rightarrow>
                 (case toUpperCase v of
                    Inl err \<Rightarrow> ([], Some err)
                  | Inr stateCmd \<Rightarrow>
                      ([SetState (sonoffAdapter @ ''.'' @ friendlyName dev @ ''.POWER'')
                          (JBool (resolve_state dev 0 stateCmd))], None)))
          else ([], None))"

fun relay_states :: "device \<Rightarrow> jsval \<Rightarrow> nat list \<Rightarrow> seffect list \<times> js_error option" where
  "relay_states dev cmd [] = ([], None)"
| "relay_states dev cmd (i # rest) =
     (case has_key (''state_l'' @ show_nat i) cmd of
        Inl err \<Rightarrow> ([], Some err)
      | Inr present \<Rightarrow>
          if present
          then
            (case get_prop cmd (''state_l'' @ show_nat i) of
               Inl err \<Rightarrow> ([], Some err)
             | Inr v \<Rightarrow>
                 (case toUpperCase v of
                    Inl err \<Rightarrow> ([], Some err)
                  | Inr stateCmd \<Rightarrow>
                      (let r = relay_states dev cmd rest in
                       (SetState (powerStateId (friendlyName dev) (relayCount dev) i)
                          (JBool (resolve_state dev (i - 1) stateCmd)) # fst r, snd r))))
          else relay_states dev cmd rest)"

definition set_command_body :: "device \<Rightarrow> jsval \<Rightarrow> seffect list \<times> js_error option" where
  "set_command_body dev cmd =
     (let r1 = single_state dev cmd in
      case snd r1 of
        Some err \<Rightarrow> r1
      | None \<Rightarrow>
          (let r2 = relay_states dev cmd [1 ..< Suc (relayCount dev)] in
           (fst r1 @ fst r2, snd r2)))"

definition handleZ2MSetCommand :: "env \<Rightarrow> bridge \<Rightarrow> string \<Rightarrow> jsval \<Rightarrow> bridge \<times> seffect list" where
  "handleZ2MSetCommand e st name payload =
     (case find_first (\<lambda>dev. friendly_name (z2mDevice dev) = name) (sonoffDevices st) of
        None \<Rightarrow> (st, [LogError (''Device '' @ name @ '' not found for set command'')])
      | Some dev \<Rightarrow>
          (case JSON_parse e (to_String payload) of
             None \<Rightarrow> (st, [LogError ''Error processing set command: ''])
           | Some cmd \<Rightarrow>
               (let r = set_command_body dev cmd in
                (st, fst r @ (case snd r of
                                None \<Rightarrow> []
                              | Some err \<Rightarrow> [LogError ''Error processing set command: ''])))))"

subsection \<open>Bridge topics, start and stop\<close>

text \<open>The payload of \<^verbatim>\<open>bridge/devices\<close> is the constant coordinator entry followed by
  the stored definitions; \<open>DeviceList\<close> carries the latter.\<close>

definition publishBridgeTopics :: "bridge \<Rightarrow> seffect list" where
  "publishBridgeTopics st =
     publishMqtt ''bridge/info'' BridgeInfo @
     publishMqtt ''bridge/devices'' (DeviceList (map (\<lambda>kv. z2mDevice (snd kv)) (sonoffDevices st))) @
     publishMqtt ''bridge/groups'' (Value (JArr [])) @
     publishMqtt ''bridge/extensions'' (Value (JArr [])) @
     publishMqtt ''bridge/state'' (Value (JObj [(''state'', JStr ''online'')]))"

definition offline_payload :: "'d payload" where
  "offline_payload = Value (JObj [(''state'', JStr ''offline'')])"

definition onStop :: "bridge \<Rightarrow> bridge \<times> seffect list" where
  "onStop st =
     (st,
      LogInfo ''Bridge stopping...'' #
      publishMqtt ''bridge/state'' offline_payload @
      concat (map (\<lambda>kv. publishMqtt (friendly_name (z2mDevice (snd kv)) @ ''/availability'')
                           offline_payload) (sonoffDevices st)) @
      [LogInfo ''Bridge stopped''])"

text \<open>The events the script handles one at a time, each run to completion. A discovery
  and a command read the host as it is at that moment. \<open>Started\<close> is the end of
  \<^verbatim>\<open>initialize\<close>: the bridge topics are published and \<^verbatim>\<open>initialized\<close> is set.\<close>

datatype event =
    Discovery env string
  | PowerChange string "int option" jsval
  | AliveChange string jsval
  | SetCommand env string jsval
  | Started
  | Refresh
  | Stop

fun step :: "bridge \<Rightarrow> event \<Rightarrow> bridge \<times> seffect list" where
  "step st (Discovery e name) = processSonoffDevice e st name"
| "step st (PowerChange name relayNum state) = handleSonoffPowerChange st name relayNum state"
| "step st (AliveChange name alive) = handleSonoffAliveChange st name alive"
| "step st (SetCommand e name payload) = handleZ2MSetCommand e st name payload"
| "step st Started = (st\<lparr>initialized := True\<rparr>, publishBridgeTopics st)"
| "step st Refresh = (st, if initialized st then publishBridgeTopics st else [])"
| "step st Stop = onStop st"

fun run :: "bridge \<Rightarrow> event list \<Rightarrow> bridge \<times> seffect list" where
  "run st [] = (st, [])"
| "run st (ev # evs) =
     (let r = step st ev; r' = run (fst r) evs in (fst r', snd r @ snd r'))"

definition start :: bridge where
  "start = \<lparr>sonoffDevices = [], initialized = False\<rparr>"

section \<open>The Tasmota bridge\<close>

text \<open>
  The sibling script for devices that announce themselves with a Tasmota discovery
  message. It has the functions of the Sonoff bridge under the same names; here they
  carry the prefix \<open>tasmota_\<close>. A device has one relay state, \<^verbatim>\<open>lastState\<close>.
\<close>

definition mqttAdapter :: string where
  "mqttAdapter = ''mqtt.0''"

definition and_then :: "js_error + 'a \<Rightarrow> ('a \<Rightarrow> js_error + 'b) \<Rightarrow> js_error + 'b" where
  "and_then r f = (case r of Inl err \<Rightarrow> Inl err | Inr v \<Rightarrow> f v)"

datatype tasmota_expose =
    TSwitch (t_property: string) (t_value_off: string) (t_value_on: string) (t_value_toggle: string)
  | TNumeric (tn_name: string) (tn_property: string) (tn_value_min: int) (tn_value_max: int)

record tasmota_z2mDevice =
  t_ieee_address :: string
  t_friendly_name :: jsval
  t_model_id :: jsval
  t_exposes :: "tasmota_expose list"
  t_software_build_id :: jsval

record tasmota_device =
  t_mac :: jsval
  t_config :: jsval
  t_z2mDevice :: tasmota_z2mDevice
  t_topic :: jsval
  lastState :: jsval

record tasmota_bridge =
  tasmotaDevices :: "(jsval \<times> tasmota_device) list"
  t_initialized :: bool

type_synonym teffect = "tasmota_z2mDevice effect"

text \<open>\<^verbatim>\<open>0x0000${mac.toLowerCase()}\<close>\<close>

definition tasmota_macToIeee :: "jsval \<Rightarrow> js_error + string" where
  "tasmota_macToIeee m = and_then (toLowerCase m) (\<lambda>l. Inr (''0x0000'' @ l))"

text \<open>\<^verbatim>\<open>config.rl?.some(r => r === 1)\<close>\<close>

fun rl_some :: "jsval \<Rightarrow> js_error + jsval" where
  "rl_some JUndefined = Inr JUndefined"
| "rl_some JNull = Inr JUndefined"
| "rl_some (JArr xs) = Inr (JBool (JNum 1 \<in> set xs))"
| "rl_some v = Inl TypeError"

text \<open>\<^verbatim>\<open>tasmotaConfig.rl && tasmotaConfig.rl.some(r => r === 1)\<close>\<close>

definition rl_and_some :: "jsval \<Rightarrow> js_error + jsval" where
  "rl_and_some rl = (if \<not> truthy rl then Inr rl else rl_some rl)"

definition tasmota_createZ2MDeviceDefinition :: "jsval \<Rightarrow> js_error + tasmota_z2mDevice" where
  "tasmota_createZ2MDeviceDefinition tasmotaConfig =
     and_then (get_prop tasmotaConfig ''mac'') (\<lambda>m.
     and_then (tasmota_macToIeee m) (\<lambda>ieee.
     and_then (get_prop tasmotaConfig ''dn'') (\<lambda>dn.
     and_then (get_prop tasmotaConfig ''t'') (\<lambda>t.
     and_then (get_prop tasmotaConfig ''rl'') (\<lambda>rl.
     and_then (rl_and_some rl) (\<lambda>hasRelay.
     and_then (get_prop tasmotaConfig ''md'') (\<lambda>md.
     and_then (get_prop tasmotaConfig ''sw'') (\<lambda>sw.
       Inr \<lparr>t_ieee_address = ieee,
            t_friendly_name = js_or dn (js_or t (JStr (''Tasmota_'' @ to_String m))),
            t_model_id = js_or md (JStr ''Generic''),
            t_exposes =
              (if truthy hasRelay then [TSwitch ''state'' ''OFF'' ''ON'' ''TOGGLE''] else []) @
              [TNumeric ''linkquality'' ''linkquality'' 0 255],
            t_software_build_id = js_or sw (JStr ''1.0.0'')\<rparr>))))))))"

text \<open>The script writes the message into the MQTT adapter's state for the topic
  (\<^verbatim>\<open>createState\<close> the first time, \<^verbatim>\<open>setState\<close> afterwards).\<close>

definition tasmota_publishMqtt :: "string \<Rightarrow> 'd payload \<Rightarrow> 'd effect list" where
  "tasmota_publishMqtt topic p = [Publish (z2mBaseTopic @ ''/'' @ topic) p]"

definition sendTasmotaCommand :: "jsval \<Rightarrow> string \<Rightarrow> jsval \<Rightarrow> teffect list" where
  "sendTasmotaCommand deviceTopic command v =
     [SetState (mqttAdapter @ ''.cmnd.'' @ to_String deviceTopic @ ''.'' @ command)
        (if v = JStr ''ON'' then JNum 1 else if v = JStr ''OFF'' then JNum 0 else v)]"

definition tasmota_publishBridgeTopics :: "tasmota_bridge \<Rightarrow> teffect list" where
  "tasmota_publishBridgeTopics st =
     tasmota_publishMqtt ''bridge/info'' BridgeInfo @
     tasmota_publishMqtt ''bridge/devices''
       (DeviceList (map (\<lambda>kv. t_z2mDevice (snd kv)) (tasmotaDevices st))) @
     tasmota_publishMqtt ''bridge/groups'' (Value (JArr [])) @
     tasmota_publishMqtt ''bridge/extensions'' (Value (JArr [])) @
     tasmota_publishMqtt ''bridge/state'' (Value (JObj [(''state'', JStr ''online'')]))"

definition tasmota_publishDeviceState ::
  "(jsval \<times> tasmota_device) list \<Rightarrow> jsval \<Rightarrow> bool \<Rightarrow> teffect list" where
  "tasmota_publishDeviceState devices m state =
     (case Map_get devices m of
        None \<Rightarrow> []
      | Some dev \<Rightarrow>
          tasmota_publishMqtt (to_String (t_friendly_name (t_z2mDevice dev)))
            (Value (JObj [(''state'', JStr (if state then ''ON'' else ''OFF'')),
                          (''linkquality'', JNum 255)])) @
          tasmota_publishMqtt (to_String (t_friendly_name (t_z2mDevice dev)) @ ''/availability'')
            (Value (JObj [(''state'', JStr ''online'')])))"

text \<open>\<^verbatim>\<open>tasmotaDevices.has(mac)\<close>: an object or array that \<^verbatim>\<open>JSON.parse\<close> has just
  built is no key of the map.\<close>

fun Map_has :: "(jsval \<times> 'v) list \<Rightarrow> jsval \<Rightarrow> bool" where
  "Map_has m (JArr xs) = False"
| "Map_has m (JObj kvs) = False"
| "Map_has m k = (k \<in> fst ` set m)"

definition discovery_body ::
  "tasmota_bridge \<Rightarrow> jsval \<Rightarrow> js_error + tasmota_bridge \<times> teffect list" where
  "discovery_body st config =
     and_then (get_prop config ''mac'') (\<lambda>m.
       if \<not> truthy m then Inr (st, [LogError ''Discovery payload without MAC address''])
       else
         and_then (get_prop config ''rl'') (\<lambda>rl.
         and_then (rl_some rl) (\<lambda>hasRelay.
           if \<not> truthy hasRelay then Inr (st, [])
           else if Map_has (tasmotaDevices st) m then Inr (st, [])
           else
             and_then (tasmota_createZ2MDeviceDefinition config) (\<lambda>z.
             and_then (get_prop config ''t'') (\<lambda>t.
             and_then (get_prop config ''dn'') (\<lambda>dn.
               let st' = st\<lparr>tasmotaDevices :=
                     Map_set (tasmotaDevices st) m
                       \<lparr>t_mac = m, t_config = config, t_z2mDevice = z, t_topic = t,
                        lastState = JNull\<rparr>\<rparr>
               in Inr (st',
                   LogInfo (''New Tasmota device discovered: '' @
                            to_String (js_or dn (JStr ''unnamed'')) @ '' ('' @ to_String m @ '')'') #
                   (if t_initialized st then tasmota_publishBridgeTopics st' else []) @
                   sendTasmotaCommand t ''POWER'' JNull)))))))"

definition handleTasmotaDiscovery ::
  "env \<Rightarrow> tasmota_bridge \<Rightarrow> string \<Rightarrow> tasmota_bridge \<times> teffect list" where
  "handleTasmotaDiscovery e st stateId =
     (case getState e stateId of
        None \<Rightarrow> (st, [])
      | Some v \<Rightarrow>
          if \<not> truthy v then (st, [])
          else
            (case JSON_parse e (to_String v) of
               None \<Rightarrow> (st, [LogError ''Discovery parsing error: ''])
             | Some config \<Rightarrow>
                 (case discovery_body st config of
                    Inl err \<Rightarrow> (st, [LogError ''Discovery parsing error: ''])
                  | Inr r \<Rightarrow> r)))"

definition handleTasmotaStatus ::
  "tasmota_bridge \<Rightarrow> jsval \<Rightarrow> jsval \<Rightarrow> tasmota_bridge \<times> teffect list" where
  "handleTasmotaStatus st m state =
     (case Map_get (tasmotaDevices st) m of
        None \<Rightarrow> (st, [])
      | Some dev \<Rightarrow>
          let newState = (state = JStr ''ON'') in
          if lastState dev \<noteq> JBool newState
          then
            let devices = Map_set (tasmotaDevices st) m (dev\<lparr>lastState := JBool newState\<rparr>)
            in (st\<lparr>tasmotaDevices := devices\<rparr>, tasmota_publishDeviceState devices m newState)
          else (st, []))"

definition tasmota_set_body :: "tasmota_device \<Rightarrow> jsval \<Rightarrow> js_error + teffect list" where
  "tasmota_set_body targetDevice cmd =
     and_then (has_key ''state'' cmd) (\<lambda>present.
       if present
       then
         and_then (get_prop cmd ''state'') (\<lambda>v.
           let tasmotaValue = map upper_char (to_String v) in
           if tasmotaValue \<in> set [''ON'', ''OFF'', ''TOGGLE'']
           then Inr (sendTasmotaCommand (t_topic targetDevice) ''POWER'' (JStr tasmotaValue))
           else Inr [])
       else Inr [])"

definition tasmota_handleZ2MSetCommand ::
  "env \<Rightarrow> tasmota_bridge \<Rightarrow> string \<Rightarrow> jsval \<Rightarrow> tasmota_bridge \<times> teffect list" where
  "tasmota_handleZ2MSetCommand e st name payload =
     (case find_first (\<lambda>dev. t_friendly_name (t_z2mDevice dev) = JStr name) (tasmotaDevices st) of
        None \<Rightarrow> (st, [LogError (''Device not found for set command: '' @ name)])
      | Some targetDevice \<Rightarrow>
          (case JSON_parse e (to_String payload) of
             None \<Rightarrow> (st, [LogError ''Invalid set payload: ''])
           | Some cmd \<Rightarrow>
               (case tasmota_set_body targetDevice cmd of
                  Inl err \<Rightarrow> (st, [LogError ''Invalid set payload: ''])
                | Inr effs \<Rightarrow> (st, effs))))"


section \<open>Observing the effects\<close>

fun is_publish :: "'d effect \<Rightarrow> bool" where
  "is_publish (Publish t p) = True"
| "is_publish eff = False"

fun is_native_command :: "'d effect \<Rightarrow> bool" where
  "is_native_command (SetState stateId v) = True"
| "is_native_command eff = False"

definition ends_with :: "string \<Rightarrow> string \<Rightarrow> bool" where
  "ends_with suffix s = (length suffix \<le> length s \<and> drop (length s - length suffix) s = suffix)"



text \<open>The native side of the Sonoff bridge is written with booleans only.\<close>

fun concrete_command :: "'d effect \<Rightarrow> bool" where
  "concrete_command (SetState stateId v) = (v = JBool True \<or> v = JBool False)"
| "concrete_command eff = True"

section \<open>Example hosts\<close>

text \<open>
  A host with one Sonoff device folder, \<^verbatim>\<open>sonoff.0.plug\<close>: its MAC address, \<open>n\<close> GPIO
  states that all hold the code of Relay1, further states, and the payload texts that
  \<^verbatim>\<open>JSON.parse\<close> accepts with their values.
\<close>

definition gpio_ids :: "nat \<Rightarrow> string list" where
  "gpio_ids n = map (\<lambda>i. ''sonoff.0.plug.GPIO_'' @ show_nat i) [0 ..< n]"

definition plug_host :: "nat \<Rightarrow> (string \<times> jsval) list \<Rightarrow> (string \<times> jsval) list \<Rightarrow> env" where
  "plug_host n states texts =
     \<lparr>getState = map_of (map (\<lambda>stateId. (stateId, JNum 224)) (gpio_ids n) @
                  (''sonoff.0.plug.STATUS.StatusNET_Mac'', JStr ''60:01:94:CC:5E:44'') # states),
      select = (\<lambda>pattern. if pattern = ''sonoff.0.plug.GPIO_*'' then gpio_ids n else []),
      JSON_parse = map_of texts,
      StringToNumber = (\<lambda>s. None)\<rparr>"

definition toggle_text :: string where
  \<open>toggle_text = ''{"state":"TOGGLE"}''\<close>

definition toggle_cmd :: jsval where
  "toggle_cmd = JObj [(''state'', JStr ''TOGGLE'')]"

definition l1_on_text :: string where
  \<open>l1_on_text = ''{"state_l1":"ON"}''\<close>

definition l1_on_cmd :: jsval where
  "l1_on_cmd = JObj [(''state_l1'', JStr ''ON'')]"

definition both_text :: string where
  \<open>both_text = ''{"state":"OFF","state_l1":"ON"}''\<close>

definition both_cmd :: jsval where
  "both_cmd = JObj [(''state'', JStr ''OFF''), (''state_l1'', JStr ''ON'')]"

definition l2_toggle_text :: string where
  \<open>l2_toggle_text = ''{"state_l2":"toggle"}''\<close>

definition l2_toggle_cmd :: jsval where
  "l2_toggle_cmd = JObj [(''state_l2'', JStr ''toggle'')]"

definition all_toggle_text :: string where
  \<open>all_toggle_text = ''{"state_l1":"TOGGLE","state_l2":"TOGGLE"}''\<close>

definition all_toggle_cmd :: jsval where
  "all_toggle_cmd = JObj [(''state_l1'', JStr ''TOGGLE''), (''state_l2'', JStr ''TOGGLE'')]"

definition command_texts :: "(string \<times> jsval) list" where
  "command_texts =
     [(toggle_text, toggle_cmd), (l1_on_text, l1_on_cmd), (both_text, both_cmd),
      (l2_toggle_text, l2_toggle_cmd), (all_toggle_text, all_toggle_cmd)]"

text \<open>The single-relay plug as discovery stores it, when its power state reads \<open>pw\<close>.\<close>

definition plug_device :: "jsval \<Rightarrow> device" where
  "plug_device pw =
     \<lparr>mac = JStr ''60:01:94:CC:5E:44'', friendlyName = ''plug'', model = JNull, version = JNull,
      relayCount = 1, lastStates = [pw], lastAvailable = JNull,
      z2mDevice =
        \<lparr>ieee_address = ''0x0000600194cc5e44'', friendly_name = ''plug'',
         model_id = JStr ''Generic'',
         exposes = [switch_expose 1 1, linkquality_expose],
         endpoints = [endpoint_entry 1],
         interview_completed = True, interviewing = False,
         interview_state = ''SUCCESSFUL'', software_build_id = JStr ''1.0.0''\<rparr>\<rparr>"

definition plug_bridge :: "jsval \<Rightarrow> bridge" where
  "plug_bridge pw =
     \<lparr>sonoffDevices = [(JStr ''60:01:94:CC:5E:44'', plug_device pw)], initialized = False\<rparr>"

text \<open>A host with one Tasmota discovery message.\<close>

definition discovery_id :: string where
  "discovery_id = ''mqtt.0.tasmota.discovery.600194CC5E44.config''"

definition discovery_text :: string where
  \<open>discovery_text = ''{"dn":"plug","mac":"600194CC5E44","rl":[1,0],"t":"tasmota_CC5E44"}''\<close>

definition discovery_config :: jsval where
  "discovery_config =
     JObj [(''dn'', JStr ''plug''), (''mac'', JStr ''600194CC5E44''),
           (''rl'', JArr [JNum 1, JNum 0]), (''t'', JStr ''tasmota_CC5E44'')]"

definition tasmota_host :: env where
  "tasmota_host =
     \<lparr>getState = map_of [(discovery_id, JStr discovery_text)],
      select = (\<lambda>pattern. []),
      JSON_parse = map_of ((discovery_text, discovery_config) # command_texts),
      StringToNumber = (\<lambda>s. None)\<rparr>"

definition tasmota_plug :: tasmota_device where
  "tasmota_plug =
     \<lparr>t_mac = JStr ''600194CC5E44'', t_config = discovery_config,
      t_z2mDevice =
        \<lparr>t_ieee_address = ''0x0000600194cc5e44'', t_friendly_name = JStr ''plug'',
         t_model_id = JStr ''Generic'',
         t_exposes = [TSwitch ''state'' ''OFF'' ''ON'' ''TOGGLE'',
                      TNumeric ''linkquality'' ''linkquality'' 0 255],
         t_software_build_id = JStr ''1.0.0''\<rparr>,
      t_topic = JStr ''tasmota_CC5E44'', lastState = JNull\<rparr>"

definition tasmota_start :: tasmota_bridge where
  "tasmota_start = \<lparr>tasmotaDevices = [], t_initialized = False\<rparr>"

definition tasmota_bridge1 :: tasmota_bridge where
  "tasmota_bridge1 = \<lparr>tasmotaDevices = [(JStr ''600194CC5E44'', tasmota_plug)], t_initialized = False\<rparr>"


text \<open>A host with two device folders, \<^verbatim>\<open>plug\<close> and \<^verbatim>\<open>lamp\<close>, that report the same MAC
  address (the folder of a renamed device stays in the object tree), one relay each.\<close>

definition twin_host :: env where
  "twin_host =
     \<lparr>getState = map_of
        [(''sonoff.0.plug.STATUS.StatusNET_Mac'', JStr ''60:01:94:CC:5E:44''),
         (''sonoff.0.lamp.STATUS.StatusNET_Mac'', JStr ''60:01:94:CC:5E:44''),
         (''sonoff.0.plug.GPIO_12'', JNum 224),
         (''sonoff.0.lamp.GPIO_12'', JNum 224)],
      select = (\<lambda>pattern. if pattern = ''sonoff.0.plug.GPIO_*'' then [''sonoff.0.plug.GPIO_12'']
                         else if pattern = ''sonoff.0.lamp.GPIO_*'' then [''sonoff.0.lamp.GPIO_12'']
                         else []),
      JSON_parse = (\<lambda>s. None),
      StringToNumber = (\<lambda>s. None)\<rparr>"

text \<open>The same folder with two relays, as discovery stores it with the given states.\<close>

definition dual_device :: "jsval list \<Rightarrow> device" where
  "dual_device states =
     \<lparr>mac = JStr ''60:01:94:CC:5E:44'', friendlyName = ''plug'', model = JNull, version = JNull,
      relayCount = 2, lastStates = states, lastAvailable = JNull,
      z2mDevice =
        \<lparr>ieee_address = ''0x0000600194cc5e44'', friendly_name = ''plug'',
         model_id = JStr ''Generic'',
         exposes = [switch_expose 2 1, switch_expose 2 2, linkquality_expose],
         endpoints = [endpoint_entry 1, endpoint_entry 2],
         interview_completed = True, interviewing = False,
         interview_state = ''SUCCESSFUL'', software_build_id = JStr ''1.0.0''\<rparr>\<rparr>"

definition dual_bridge :: "jsval list \<Rightarrow> bridge" where
  "dual_bridge states =
     \<lparr>sonoffDevices = [(JStr ''60:01:94:CC:5E:44'', dual_device states)], initialized = False\<rparr>"

text \<open>The host of the two-relay folder once the adapter has created the \<^verbatim>\<open>alive\<close> state
  without a value and relay 1 reads on, and the bridge after \<^verbatim>\<open>initialize\<close> with an empty
  registry.\<close>

definition live_host :: env where
  "live_host =
     plug_host 2 [(''sonoff.0.plug.POWER1'', JBool True), (''sonoff.0.plug.alive'', JUndefined)] []"

definition started :: bridge where
  "started = \<lparr>sonoffDevices = [], initialized = True\<rparr>"

text \<open>The record of a device with \<open>n\<close> relays as discovery hands it to
  \<^verbatim>\<open>createZ2MDeviceDefinition\<close>.\<close>

definition plug_info :: "nat \<Rightarrow> deviceInfo" where
  "plug_info n =
     \<lparr>mac = JStr ''60:01:94:CC:5E:44'', friendlyName = ''plug'', model = JNull, version = JNull,
      relayCount = n, lastStates = replicate n JNull, lastAvailable = JNull\<rparr>"

section \<open>Invariants and observations of the registry\<close>

text \<open>What holds of every entry the Sonoff bridge stores: the key is the record's MAC,
  the relay count is between 1 and 28, there is one stored state per relay, and the
  description carries the record's name.\<close>

definition device_ok :: "jsval \<times> device \<Rightarrow> bool" where
  "device_ok kv =
     (mac (snd kv) = fst kv \<and> 1 \<le> relayCount (snd kv) \<and> relayCount (snd kv) \<le> 28 \<and>
      length (lastStates (snd kv)) = relayCount (snd kv) \<and>
      friendly_name (z2mDevice (snd kv)) = friendlyName (snd kv))"

definition registry_ok :: "(jsval \<times> device) list \<Rightarrow> bool" where
  "registry_ok m = (distinct (map fst m) \<and> list_all device_ok m)"

definition relay_count_in_range :: "jsval \<times> device \<Rightarrow> bool" where
  "relay_count_in_range kv = (1 \<le> relayCount (snd kv) \<and> relayCount (snd kv) \<le> 28)"

definition one_state_per_relay :: "jsval \<times> device \<Rightarrow> bool" where
  "one_state_per_relay kv = (length (lastStates (snd kv)) = relayCount (snd kv))"

text \<open>The whole-device snapshot in the spec's words: the signal quality 255 and the
  current value of every endpoint, under \<^verbatim>\<open>state\<close> for one relay and under
  \<^verbatim>\<open>state_l1\<close> .. \<^verbatim>\<open>state_lN\<close> for more.\<close>

definition snapshot :: "device \<Rightarrow> (string \<times> jsval) list" where
  "snapshot dev =
     (''linkquality'', JNum 255) #
     (if relayCount dev = 1 then [(''state'', on_off (lastStates dev ! 0))]
      else map (\<lambda>i. (''state_l'' @ show_nat (Suc i), on_off (lastStates dev ! i)))
             [0 ..< relayCount dev])"

definition snapshot_of :: "string \<Rightarrow> (string \<times> jsval) list \<Rightarrow> jsval \<times> device \<Rightarrow> bool" where
  "snapshot_of t kvs kv =
     (t = z2mBaseTopic @ ''/'' @ friendly_name (z2mDevice (snd kv)) \<and> kvs = snapshot (snd kv))"

text \<open>The one object that is published and is no state snapshot is the marker
  \<^verbatim>\<open>{state: online}\<close> or \<^verbatim>\<open>{state: offline}\<close>, on an availability topic or on
  \<^verbatim>\<open>bridge/state\<close>.\<close>

definition is_marker :: "string \<Rightarrow> (string \<times> jsval) list \<Rightarrow> bool" where
  "is_marker t kvs =
     ((kvs = [(''state'', JStr ''online'')] \<or> kvs = [(''state'', JStr ''offline'')]) \<and>
      (ends_with ''/availability'' t \<or> t = z2mBaseTopic @ ''/bridge/state''))"

text \<open>Every object that is published is such a marker or a complete snapshot: the
  snapshot of a registered device, on that device's topic. The only other value that is
  published is the empty list of the bridge's groups and extensions; the bridge
  information and the device list are no state publishes.\<close>

fun complete_snapshot :: "bridge \<Rightarrow> seffect \<Rightarrow> bool" where
  "complete_snapshot st (Publish t (Value (JObj kvs))) =
     (is_marker t kvs \<or> list_ex (snapshot_of t kvs) (sonoffDevices st))"
| "complete_snapshot st (Publish t (Value (JArr xs))) = (xs = [])"
| "complete_snapshot st (Publish t (Value JUndefined)) = False"
| "complete_snapshot st (Publish t (Value JNull)) = False"
| "complete_snapshot st (Publish t (Value (JBool b))) = False"
| "complete_snapshot st (Publish t (Value (JNum n))) = False"
| "complete_snapshot st (Publish t (Value (JStr s))) = False"
| "complete_snapshot st (Publish t BridgeInfo) = True"
| "complete_snapshot st (Publish t (DeviceList ds)) = True"
| "complete_snapshot st (SetState stateId v) = True"
| "complete_snapshot st (LogInfo line) = True"
| "complete_snapshot st (LogError line) = True"

text \<open>What a set command asks of relay \<open>i\<close>, in the spec's words: nothing when the key
  \<^verbatim>\<open>state_l<i>\<close> is absent; otherwise one write to the relay's power state, of the
  negation of the stored \<^verbatim>\<open>lastStates[i - 1]\<close> for \<^verbatim>\<open>TOGGLE\<close> (an unknown entry counts as
  false) and of whether the value is \<^verbatim>\<open>ON\<close> for anything else. The bare key
  \<^verbatim>\<open>state\<close> is read for a device with one relay only.\<close>

definition toggled :: "device \<Rightarrow> nat \<Rightarrow> string \<Rightarrow> bool" where
  "toggled dev i s =
     (if map upper_char s = ''TOGGLE'' then \<not> truthy (js_nth (lastStates dev) (i - 1))
      else map upper_char s = ''ON'')"

definition relay_command :: "device \<Rightarrow> (string \<times> jsval) list \<Rightarrow> nat \<Rightarrow> seffect list" where
  "relay_command dev kvs i =
     (case map_of kvs (''state_l'' @ show_nat i) of
        Some (JStr s) \<Rightarrow>
          [SetState (powerStateId (friendlyName dev) (relayCount dev) i) (JBool (toggled dev i s))]
      | _ \<Rightarrow> [])"

definition state_command :: "device \<Rightarrow> (string \<times> jsval) list \<Rightarrow> seffect list" where
  "state_command dev kvs =
     (if relayCount dev = 1
      then (case map_of kvs ''state'' of
              Some (JStr s) \<Rightarrow>
                [SetState (sonoffAdapter @ ''.'' @ friendlyName dev @ ''.POWER'')
                   (JBool (toggled dev 1 s))]
            | _ \<Rightarrow> [])
      else [])"

text \<open>The values of the keys that the handler reads are strings.\<close>

fun is_string :: "jsval \<Rightarrow> bool" where
  "is_string (JStr s) = True"
| "is_string v = False"

definition string_or_absent :: "(string \<times> jsval) list \<Rightarrow> string \<Rightarrow> bool" where
  "string_or_absent kvs k = (case map_of kvs k of None \<Rightarrow> True | Some v \<Rightarrow> is_string v)"

definition string_valued :: "device \<Rightarrow> (string \<times> jsval) list \<Rightarrow> bool" where
  "string_valued dev kvs =
     ((relayCount dev \<noteq> 1 \<or> string_or_absent kvs ''state'') \<and>
      list_all (\<lambda>i. string_or_absent kvs (''state_l'' @ show_nat i)) [1 ..< Suc (relayCount dev)])"

fun is_switch :: "expose \<Rightarrow> bool" where
  "is_switch (SwitchExpose ep fs) = True"
| "is_switch ex = False"

definition switches :: "z2mDevice \<Rightarrow> expose list" where
  "switches z = filter is_switch (exposes z)"

definition switch_features :: "z2mDevice \<Rightarrow> feature list" where
  "switch_features z = concat (map e_features (switches z))"

section \<open>Shutdown sweep\<close>


lemma ends_with_append: "ends_with suffix (xs @ suffix)"
  by (simp add: ends_with_def)






lemma ends_with_topic: "ends_with ''/availability'' (z2mBaseTopic @ ''/'' @ name @ ''/availability'')"
  using ends_with_append [of "''/availability''" "z2mBaseTopic @ ''/'' @ name"] by simp

lemma ends_with_topic_cons: "ends_with ''/availability'' (b @ CHR ''/'' # name @ ''/availability'')"
  using ends_with_append [of "''/availability''" "b @ CHR ''/'' # name"] by simp






section \<open>Evaluation on the example hosts\<close>

lemmas js_eval = show_nat.simps digit_char_def show_int_def upper_char_def lower_char_def
  upper_letters_def lower_letters_def js_nth_def js_set_def js_or_def getStateValue_def

lemma show_nat_1: "show_nat (Suc 0) = ''1''"
  by (simp add: js_eval)

lemma plug_discovered:
  "processSonoffDevice (plug_host 1 (if pw = JNull then [] else [(''sonoff.0.plug.POWER'', pw)]) texts) start ''plug'' =
     (plug_bridge pw,
      [LogInfo ''Discovered Sonoff device: plug (60:01:94:CC:5E:44) - Model: null, Version: null, Relays: 1''])"
  by (simp add: processSonoffDevice_def plug_host_def gpio_ids_def parseGPIOs_def relay_value_def
      sonoffAdapter_def js_eval start_def createZ2MDeviceDefinition_def attach_def
      deviceInfo.defs device.defs read_power_def powerStateId_def plug_bridge_def plug_device_def
      Let_def)

lemma tasmota_discovered:
  "handleTasmotaDiscovery tasmota_host tasmota_start discovery_id =
     (tasmota_bridge1,
      [LogInfo ''New Tasmota device discovered: plug (600194CC5E44)'',
       SetState ''mqtt.0.cmnd.tasmota_CC5E44.POWER'' JNull])"
  by (simp add: handleTasmotaDiscovery_def tasmota_host_def tasmota_start_def discovery_id_def
      discovery_text_def discovery_config_def discovery_body_def and_then_def rl_and_some_def
      tasmota_createZ2MDeviceDefinition_def tasmota_macToIeee_def js_eval tasmota_bridge1_def
      tasmota_plug_def sendTasmotaCommand_def mqttAdapter_def Let_def)


section \<open>Properties of the command handlers\<close>

lemma has_key_map_of: "map_of kvs k = Some v \<Longrightarrow> has_key k (JObj kvs) = Inr True"
  by (auto dest: map_of_SomeD intro: image_eqI [where x = "(k, v)"])

lemma has_key_absent: "k \<notin> fst ` set kvs \<Longrightarrow> has_key k (JObj kvs) = Inr False"
  by simp

lemma get_prop_map_of: "map_of kvs k = Some v \<Longrightarrow> get_prop (JObj kvs) k = Inr v"
  by simp

text \<open>
  C8. A set command for a known device whose payload \<^verbatim>\<open>JSON.parse\<close> rejects: the handler
  returns with the error logged and nothing else done. No native state is written and the
  registry is returned as it was. Both bridges.
\<close>

theorem malformed_command_dropped:
  assumes "find_first (\<lambda>dev. friendly_name (z2mDevice dev) = name) (sonoffDevices st) = Some dev"
    and "find_first (\<lambda>dev. t_friendly_name (t_z2mDevice dev) = JStr name) (tasmotaDevices tst) = Some tdev"
    and "JSON_parse e (to_String payload) = None"
  shows "handleZ2MSetCommand e st name payload = (st, [LogError ''Error processing set command: '']) \<and>
         tasmota_handleZ2MSetCommand e tst name payload = (tst, [LogError ''Invalid set payload: ''])"
  using assms by (simp add: handleZ2MSetCommand_def tasmota_handleZ2MSetCommand_def)

lemma find_plug: "find_first (\<lambda>dev. friendly_name (z2mDevice dev) = ''plug'') (sonoffDevices (plug_bridge pw)) = Some (plug_device pw)"
  by (simp add: find_first_def plug_bridge_def plug_device_def)

lemma find_tasmota_plug:
  "find_first (\<lambda>dev. t_friendly_name (t_z2mDevice dev) = JStr ''plug'') (tasmotaDevices tasmota_bridge1) = Some tasmota_plug"
  by (simp add: find_first_def tasmota_bridge1_def tasmota_plug_def)

lemma parse_broken: "JSON_parse tasmota_host (to_String (JStr ''{state:'')) = None"
  by (simp add: tasmota_host_def command_texts_def discovery_text_def toggle_text_def
      l1_on_text_def both_text_def l2_toggle_text_def all_toggle_text_def)

theorem malformed_command_dropped_witness:
  "handleZ2MSetCommand tasmota_host (fst (processSonoffDevice (plug_host 1 [] []) start ''plug''))
      ''plug'' (JStr ''{state:'') =
     (plug_bridge JNull, [LogError ''Error processing set command: '']) \<and>
   tasmota_handleZ2MSetCommand tasmota_host
      (fst (handleTasmotaDiscovery tasmota_host tasmota_start discovery_id)) ''plug'' (JStr ''{state:'') =
     (tasmota_bridge1, [LogError ''Invalid set payload: ''])"
  using malformed_command_dropped [OF find_plug find_tasmota_plug parse_broken, of JNull]
    plug_discovered [of JNull "[]"] tasmota_discovered
  by simp

lemma single_state_toggle:
  assumes "relayCount dev = 1" "map_of kvs ''state'' = Some (JStr s)"
  shows "single_state dev (JObj kvs) =
     ([SetState (sonoffAdapter @ ''.'' @ friendlyName dev @ ''.POWER'')
         (JBool (resolve_state dev 0 (map upper_char s)))], None)"
  using assms by (simp add: single_state_def has_key_map_of get_prop_map_of del: has_key.simps get_prop.simps)

lemma single_state_absent:
  assumes "''state'' \<notin> fst ` set kvs"
  shows "single_state dev (JObj kvs) = ([], None)"
  using assms by (simp add: single_state_def)

lemma relay_states_one_present:
  assumes "map_of kvs ''state_l1'' = Some (JStr s)"
  shows "relay_states dev (JObj kvs) [Suc 0] =
     ([SetState (powerStateId (friendlyName dev) (relayCount dev) 1)
         (JBool (resolve_state dev 0 (map upper_char s)))], None)"
  using assms by (simp add: show_nat_1 has_key_map_of get_prop_map_of del: has_key.simps get_prop.simps)

lemma relay_states_one_absent:
  assumes "''state_l1'' \<notin> fst ` set kvs"
  shows "relay_states dev (JObj kvs) [Suc 0] = ([], None)"
  using assms by (simp add: show_nat_1)

lemma single_state_concrete: "list_all concrete_command (fst (single_state dev cmd))"
  by (simp add: single_state_def split: sum.splits)

lemma relay_states_concrete: "list_all concrete_command (fst (relay_states dev cmd is))"
  by (induction "is") (simp_all add: Let_def split: sum.splits)

lemma set_command_body_concrete: "list_all concrete_command (fst (set_command_body dev cmd))"
  by (simp add: set_command_body_def single_state_concrete relay_states_concrete Let_def
      split: option.splits)

lemma handleZ2MSetCommand_concrete:
  "list_all concrete_command (snd (handleZ2MSetCommand e st name payload))"
  by (simp add: handleZ2MSetCommand_def set_command_body_concrete Let_def split: option.splits)

lemma parse_command:
  "JSON_parse (plug_host n states command_texts) (to_String (JStr toggle_text)) = Some toggle_cmd"
  "JSON_parse (plug_host n states command_texts) (to_String (JStr l1_on_text)) = Some l1_on_cmd"
  "JSON_parse (plug_host n states command_texts) (to_String (JStr both_text)) = Some both_cmd"
  by (simp_all add: plug_host_def command_texts_def toggle_text_def l1_on_text_def both_text_def)

text \<open>
  C10. A single-relay device of the Sonoff bridge also obeys the key \<^verbatim>\<open>state_l1\<close>: alone
  it gives one write to the device's \<^verbatim>\<open>POWER\<close> state; together with \<^verbatim>\<open>state\<close> it gives
  two writes to that same state, the one for \<^verbatim>\<open>state\<close> first.
\<close>

theorem single_relay_accepts_state_l1:
  assumes "find_first (\<lambda>d. friendly_name (z2mDevice d) = name) (sonoffDevices st) = Some dev"
    and "relayCount dev = 1"
    and "JSON_parse e (to_String payload) = Some (JObj kvs)"
    and "map_of kvs ''state_l1'' = Some (JStr s1)"
  shows "(''state'' \<notin> fst ` set kvs \<longrightarrow>
          handleZ2MSetCommand e st name payload =
            (st, [SetState (sonoffAdapter @ ''.'' @ friendlyName dev @ ''.POWER'')
                    (JBool (resolve_state dev 0 (map upper_char s1)))])) \<and>
         (map_of kvs ''state'' = Some (JStr s0) \<longrightarrow>
          handleZ2MSetCommand e st name payload =
            (st, [SetState (sonoffAdapter @ ''.'' @ friendlyName dev @ ''.POWER'')
                    (JBool (resolve_state dev 0 (map upper_char s0))),
                  SetState (sonoffAdapter @ ''.'' @ friendlyName dev @ ''.POWER'')
                    (JBool (resolve_state dev 0 (map upper_char s1)))]))"
  using assms
  by (simp add: handleZ2MSetCommand_def set_command_body_def single_state_toggle
      single_state_absent relay_states_one_present powerStateId_def Let_def del: relay_states.simps)


theorem single_relay_accepts_state_l1_witness:
  "handleZ2MSetCommand (plug_host 1 [] command_texts)
      (fst (processSonoffDevice (plug_host 1 [] []) start ''plug'')) ''plug'' (JStr l1_on_text) =
     (plug_bridge JNull, [SetState ''sonoff.0.plug.POWER'' (JBool True)]) \<and>
   handleZ2MSetCommand (plug_host 1 [] command_texts)
      (fst (processSonoffDevice (plug_host 1 [] []) start ''plug'')) ''plug'' (JStr both_text) =
     (plug_bridge JNull, [SetState ''sonoff.0.plug.POWER'' (JBool False),
                          SetState ''sonoff.0.plug.POWER'' (JBool True)])"
proof -
  have rc: "relayCount (plug_device JNull) = 1" by (simp add: plug_device_def)
  have p1: "JSON_parse (plug_host 1 [] command_texts) (to_String (JStr l1_on_text)) =
              Some (JObj [(''state_l1'', JStr ''ON'')])"
    using parse_command(2) [of 1 "[]"] by (simp add: l1_on_cmd_def)
  have p2: "JSON_parse (plug_host 1 [] command_texts) (to_String (JStr both_text)) =
              Some (JObj [(''state'', JStr ''OFF''), (''state_l1'', JStr ''ON'')])"
    using parse_command(3) [of 1 "[]"] by (simp add: both_cmd_def)
  have l1: "map_of [(''state_l1'', JStr ''ON'')] ''state_l1'' = Some (JStr ''ON'')" by simp
  have l2: "map_of [(''state'', JStr ''OFF''), (''state_l1'', JStr ''ON'')] ''state_l1'' = Some (JStr ''ON'')"
    by simp
  show ?thesis
    using single_relay_accepts_state_l1 [OF find_plug rc p1 l1, of "''x''"]
      single_relay_accepts_state_l1 [OF find_plug rc p2 l2, of "''OFF''"]
      plug_discovered [of JNull "[]"]
    by (simp add: plug_device_def sonoffAdapter_def js_eval resolve_state_def)
qed


section \<open>Properties of the registry and the state synchronizer\<close>

subsection \<open>Decimal rendering is injective\<close>

lemma digit_char_inj: "a < 10 \<Longrightarrow> b < 10 \<Longrightarrow> digit_char a = digit_char b \<Longrightarrow> a = b"
proof -
  assume a: "a < 10" and b: "b < 10" and e: "digit_char a = digit_char b"
  have d: "distinct ''0123456789''" by simp
  have "a < length ''0123456789''" "b < length ''0123456789''" using a b by simp_all
  with d e show ?thesis unfolding digit_char_def by (simp only: nth_eq_iff_index_eq)
qed

lemma show_nat_length: "length (show_nat n) \<ge> 1"
  by (induction n rule: show_nat.induct) (subst show_nat.simps, simp)

lemma show_nat_small: "n < 10 \<Longrightarrow> show_nat n = [digit_char n]"
  by (subst show_nat.simps) simp

lemma show_nat_big: "\<not> n < 10 \<Longrightarrow> show_nat n = show_nat (n div 10) @ [digit_char (n mod 10)]"
  by (subst show_nat.simps) simp

lemma show_nat_inj: "show_nat a = show_nat b \<Longrightarrow> a = b"
proof (induction a arbitrary: b rule: show_nat.induct)
  case (1 n)
  show ?case
  proof (cases "n < 10")
    case True
    note small = this
    show ?thesis
    proof (cases "b < 10")
      case True
      with small "1.prems" show ?thesis by (simp add: show_nat_small digit_char_inj)
    next
      case False
      have "length (show_nat b) \<ge> 2"
        using False show_nat_length [of "b div 10"] by (simp add: show_nat_big)
      moreover have "length (show_nat b) = length (show_nat n)" using "1.prems" by simp
      ultimately show ?thesis using small by (simp add: show_nat_small)
    qed
  next
    case False
    note big = this
    show ?thesis
    proof (cases "b < 10")
      case True
      have "length (show_nat n) \<ge> 2"
        using big show_nat_length [of "n div 10"] by (simp add: show_nat_big)
      moreover have "length (show_nat n) = length (show_nat b)" using "1.prems" by simp
      ultimately show ?thesis using True by (simp add: show_nat_small)
    next
      case False
      from big False "1.prems"
      have e: "show_nat (n div 10) = show_nat (b div 10)" "digit_char (n mod 10) = digit_char (b mod 10)"
        by (simp_all add: show_nat_big)
      from "1.IH" [OF big e(1)] have q: "n div 10 = b div 10" .
      have r: "n mod 10 = b mod 10" using e(2) by (intro digit_char_inj) simp_all
      from q r show ?thesis by (metis div_mult_mod_eq)
    qed
  qed
qed


subsection \<open>The map operations\<close>

lemma Map_set_present: "k \<in> fst ` set m \<Longrightarrow> map fst (Map_set m k v) = map fst m"
  by (induction m) force+

lemma Map_set_absent: "k \<notin> fst ` set m \<Longrightarrow> Map_set m k v = m @ [(k, v)]"
  by (induction m) auto

lemma Map_set_keys: "fst ` set (Map_set m k v) = insert k (fst ` set m)"
  by (induction m) (simp, force)

lemma distinct_Map_set: "distinct (map fst m) \<Longrightarrow> distinct (map fst (Map_set m k v))"
  by (cases "k \<in> fst ` set m") (simp_all add: Map_set_present Map_set_absent)

lemma Map_get_Map_set_same: "Map_get (Map_set m k v) k = Some v"
  by (induction m) (auto simp: Map_get_def)

lemma Map_get_Map_set_other: "k' \<noteq> k \<Longrightarrow> Map_get (Map_set m k v) k' = Map_get m k'"
  by (induction m) (auto simp: Map_get_def)

lemma list_all_Map_set: "list_all P m \<Longrightarrow> P (k, v) \<Longrightarrow> list_all P (Map_set m k v)"
  by (induction m) auto

lemma find_first_split:
  "find_first P m = Some dev \<Longrightarrow>
   \<exists>pre k post. m = pre @ (k, dev) # post \<and> (\<forall>kv \<in> set pre. \<not> P (snd kv)) \<and> P dev"
proof (induction m)
  case Nil
  then show ?case by (simp add: find_first_def)
next
  case (Cons a m)
  show ?case
  proof (cases "P (snd a)")
    case True
    with Cons.prems have "snd a = dev" by (simp add: find_first_def)
    with True have "a # m = [] @ (fst a, dev) # m \<and> (\<forall>kv \<in> set []. \<not> P (snd kv)) \<and> P dev"
      by auto
    then show ?thesis by blast
  next
    case False
    with Cons.prems have "find_first P m = Some dev" by (simp add: find_first_def)
    from Cons.IH [OF this] obtain pre k post
      where "m = pre @ (k, dev) # post" "\<forall>kv \<in> set pre. \<not> P (snd kv)" "P dev" by blast
    with False have "a # m = (a # pre) @ (k, dev) # post \<and> (\<forall>kv \<in> set (a # pre). \<not> P (snd kv)) \<and> P dev"
      by simp
    then show ?thesis by blast
  qed
qed

lemma mutate_first_split:
  "\<forall>kv \<in> set pre. \<not> P (snd kv) \<Longrightarrow> P dev \<Longrightarrow>
   mutate_first P f (pre @ (k, dev) # post) = pre @ (k, f dev) # post"
  by (induction pre) auto

lemma find_first_pre:
  "\<forall>kv \<in> set pre. \<not> P (snd kv) \<Longrightarrow> P dev \<Longrightarrow> find_first P (pre @ (k, dev) # post) = Some dev"
  by (induction pre) (auto simp: find_first_def)

lemma find_first_None: "find_first P m = None \<Longrightarrow> mutate_first P f m = m"
  by (induction m) (auto simp: find_first_def split: if_splits)

lemma Map_get_middle:
  "distinct (map fst (pre @ (k, v) # post)) \<Longrightarrow> Map_get (pre @ (k, v) # post) k = Some v"
  by (induction pre) (auto simp: Map_get_def)

subsection \<open>The registry invariant\<close>

lemma registry_ok_empty: "registry_ok []"
  by (simp add: registry_ok_def)

lemma registry_ok_Map_set: "registry_ok m \<Longrightarrow> device_ok (k, v) \<Longrightarrow> registry_ok (Map_set m k v)"
  by (simp add: registry_ok_def distinct_Map_set list_all_Map_set)

lemma registry_ok_replace:
  "registry_ok (pre @ (k, dev) # post) \<Longrightarrow> device_ok (k, dev') \<Longrightarrow>
   registry_ok (pre @ (k, dev') # post)"
  by (simp add: registry_ok_def)

lemma registry_ok_entry: "registry_ok (pre @ (k, dev) # post) \<Longrightarrow> device_ok (k, dev)"
  by (simp add: registry_ok_def)

subsection \<open>The loop that reads the initial power states\<close>

lemma js_set_middle: "js_set (xs @ JNull # ys) (length xs) v = xs @ v # ys"
  by (simp add: js_set_def list_update_append)

lemma read_power_step:
  assumes "length ls = k" "k < n"
  shows "read_power e name n (Suc k) (is, ls @ replicate (n - k) JNull) =
     (is @ [if getStateValue e (powerStateId name n (Suc k)) \<noteq> JNull
            then getStateValue e (powerStateId name n (Suc k)) else JBool False],
      (ls @ [getStateValue e (powerStateId name n (Suc k))]) @ replicate (n - Suc k) JNull)"
proof -
  have r: "replicate (n - k) JNull = JNull # replicate (n - Suc k) JNull"
    using assms(2) by (metis Suc_diff_Suc replicate_Suc)
  show ?thesis
    using js_set_middle [of ls "replicate (n - Suc k) JNull"] assms(1)
    by (simp add: read_power_def Let_def r)
qed

lemma fold_read_power_closed:
  "k \<le> n \<Longrightarrow>
   fold (read_power e name n) [1 ..< Suc k] ([], replicate n JNull) =
     (map (\<lambda>i. if getStateValue e (powerStateId name n i) \<noteq> JNull
                then getStateValue e (powerStateId name n i) else JBool False) [1 ..< Suc k],
      map (\<lambda>i. getStateValue e (powerStateId name n i)) [1 ..< Suc k] @ replicate (n - k) JNull)"
proof (induction k)
  case 0
  then show ?case by simp
next
  case (Suc k)
  then have k: "k < n" and kn: "k \<le> n" by simp_all
  let ?ls = "map (\<lambda>i. getStateValue e (powerStateId name n i)) [1 ..< Suc k]"
  let ?is = "map (\<lambda>i. if getStateValue e (powerStateId name n i) \<noteq> JNull
                then getStateValue e (powerStateId name n i) else JBool False) [1 ..< Suc k]"
  have up: "[1 ..< Suc (Suc k)] = [1 ..< Suc k] @ [Suc k]" by simp
  have len: "length ?ls = k" by simp
  have "fold (read_power e name n) [1 ..< Suc (Suc k)] ([], replicate n JNull) =
        read_power e name n (Suc k) (fold (read_power e name n) [1 ..< Suc k] ([], replicate n JNull))"
    by (simp only: up fold_append fold_simps o_apply)
  also have "\<dots> = read_power e name n (Suc k) (?is, ?ls @ replicate (n - k) JNull)"
    by (simp only: Suc.IH [OF kn])
  also have "\<dots> = (?is @ [if getStateValue e (powerStateId name n (Suc k)) \<noteq> JNull
            then getStateValue e (powerStateId name n (Suc k)) else JBool False],
      (?ls @ [getStateValue e (powerStateId name n (Suc k))]) @ replicate (n - Suc k) JNull)"
    by (rule read_power_step [OF len k])
  also have "\<dots> = (map (\<lambda>i. if getStateValue e (powerStateId name n i) \<noteq> JNull
                then getStateValue e (powerStateId name n i) else JBool False) [1 ..< Suc (Suc k)],
      map (\<lambda>i. getStateValue e (powerStateId name n i)) [1 ..< Suc (Suc k)] @ replicate (n - Suc k) JNull)"
    by (simp only: up map_append list.map)
  finally show ?case .
qed


subsection \<open>Discovery in the Sonoff bridge\<close>

lemma attach_fields [simp]:
  "mac (attach info z) = mac info"
  "friendlyName (attach info z) = friendlyName info"
  "model (attach info z) = model info"
  "version (attach info z) = version info"
  "relayCount (attach info z) = relayCount info"
  "lastStates (attach info z) = lastStates info"
  "lastAvailable (attach info z) = lastAvailable info"
  "z2mDevice (attach info z) = z"
  by (simp_all add: attach_def deviceInfo.defs device.defs)

lemma createZ2MDeviceDefinition_Inr:
  "createZ2MDeviceDefinition info = Inr z \<Longrightarrow>
   (\<exists>ms. mac info = JStr ms) \<and> friendly_name z = friendlyName info"
  by (cases "mac info") (auto simp: createZ2MDeviceDefinition_def)

lemma createZ2MDeviceDefinition_JStr:
  "mac info = JStr ms \<Longrightarrow> \<exists>z. createZ2MDeviceDefinition info = Inr z"
  by (simp add: createZ2MDeviceDefinition_def)

text \<open>The record that an accepted discovery stores.\<close>

lemma processSonoffDevice_accepted:
  assumes m: "getStateValue e (sonoffAdapter @ ''.'' @ name @ ''.STATUS.StatusNET_Mac'') = JStr ms"
    and ne: "ms \<noteq> []"
    and lo: "1 \<le> parseGPIOs e name" and hi: "parseGPIOs e name \<le> 28"
  shows "\<exists>dev.
     fst (processSonoffDevice e st name) =
       st\<lparr>sonoffDevices := Map_set (sonoffDevices st) (JStr ms) dev\<rparr> \<and>
     mac dev = JStr ms \<and> friendlyName dev = name \<and> friendly_name (z2mDevice dev) = name \<and>
     relayCount dev = parseGPIOs e name \<and>
     lastStates dev =
       map (\<lambda>i. getStateValue e (powerStateId name (parseGPIOs e name) i))
         [1 ..< Suc (parseGPIOs e name)] \<and>
     lastAvailable dev = getStateValue e (sonoffAdapter @ ''.'' @ name @ ''.alive'') \<and>
     snd (processSonoffDevice e st name) =
       LogInfo (''Discovered Sonoff device: '' @ name @ '' ('' @ ms @
                  '') - Model: '' @ to_String (getStateValue e (sonoffAdapter @ ''.'' @ name @ ''.INFO.Info1_Module'')) @
                  '', Version: '' @ to_String (getStateValue e (sonoffAdapter @ ''.'' @ name @ ''.INFO.Info1_Version'')) @
                  '', Relays: '' @ show_nat (parseGPIOs e name)) #
       (if initialized st \<and> getStateValue e (sonoffAdapter @ ''.'' @ name @ ''.alive'') \<noteq> JNull
        then [Publish (z2mBaseTopic @ ''/'' @ name)
                (Value (JObj (state_payload (parseGPIOs e name)
                   (map (\<lambda>i. if getStateValue e (powerStateId name (parseGPIOs e name) i) \<noteq> JNull
                              then getStateValue e (powerStateId name (parseGPIOs e name) i)
                              else JBool False) [1 ..< Suc (parseGPIOs e name)])))),
              Publish (z2mBaseTopic @ ''/'' @ name @ ''/availability'')
                (availability_payload (truthy (default_true (getStateValue e (sonoffAdapter @ ''.'' @ name @ ''.alive'')))))]
        else [])"
proof -
  let ?n = "parseGPIOs e name"
  let ?info = "\<lparr>mac = JStr ms, friendlyName = name,
       model = getStateValue e (sonoffAdapter @ ''.'' @ name @ ''.INFO.Info1_Module''),
       version = getStateValue e (sonoffAdapter @ ''.'' @ name @ ''.INFO.Info1_Version''),
       relayCount = ?n, lastStates = replicate ?n JNull, lastAvailable = JNull\<rparr>"
  obtain z where z: "createZ2MDeviceDefinition ?info = Inr z"
    using createZ2MDeviceDefinition_JStr [of ?info ms] by auto
  have fz: "friendly_name z = name"
    using createZ2MDeviceDefinition_Inr [OF z] by simp
  have n: "\<not> (?n = 0 \<or> ?n > 28)" using lo hi by simp
  have cl: "fold (read_power e name ?n) [1 ..< Suc ?n] ([], replicate ?n JNull) =
     (map (\<lambda>i. if getStateValue e (powerStateId name ?n i) \<noteq> JNull
                then getStateValue e (powerStateId name ?n i) else JBool False) [1 ..< Suc ?n],
      map (\<lambda>i. getStateValue e (powerStateId name ?n i)) [1 ..< Suc ?n])"
    using fold_read_power_closed [of ?n ?n e name] by simp
  let ?dev = "(attach ?info z)
      \<lparr>lastStates := map (\<lambda>i. getStateValue e (powerStateId name ?n i)) [1 ..< Suc ?n],
       lastAvailable := getStateValue e (sonoffAdapter @ ''.'' @ name @ ''.alive'')\<rparr>"
  have f: "fst (processSonoffDevice e st name) =
             st\<lparr>sonoffDevices := Map_set (sonoffDevices st) (JStr ms) ?dev\<rparr>"
    using m ne n z cl by (simp add: processSonoffDevice_def Let_def del: upt_Suc)
  have s: "snd (processSonoffDevice e st name) =
       LogInfo (''Discovered Sonoff device: '' @ name @ '' ('' @ ms @
                  '') - Model: '' @ to_String (getStateValue e (sonoffAdapter @ ''.'' @ name @ ''.INFO.Info1_Module'')) @
                  '', Version: '' @ to_String (getStateValue e (sonoffAdapter @ ''.'' @ name @ ''.INFO.Info1_Version'')) @
                  '', Relays: '' @ show_nat ?n) #
       (if initialized st \<and> getStateValue e (sonoffAdapter @ ''.'' @ name @ ''.alive'') \<noteq> JNull
        then [Publish (z2mBaseTopic @ ''/'' @ name)
                (Value (JObj (state_payload ?n
                   (map (\<lambda>i. if getStateValue e (powerStateId name ?n i) \<noteq> JNull
                              then getStateValue e (powerStateId name ?n i)
                              else JBool False) [1 ..< Suc ?n])))),
              Publish (z2mBaseTopic @ ''/'' @ name @ ''/availability'')
                (availability_payload (truthy (default_true (getStateValue e (sonoffAdapter @ ''.'' @ name @ ''.alive'')))))]
        else [])"
    using m ne n z fz cl
    by (simp add: processSonoffDevice_def Let_def publishDeviceState_def Map_get_Map_set_same
        publishMqtt_def del: upt_Suc)
  show ?thesis
    by (rule exI [of _ ?dev]) (simp add: f s fz del: upt_Suc)
qed


lemma processSonoffDevice_rejected:
  "parseGPIOs e name = 0 \<or> parseGPIOs e name > 28 \<Longrightarrow>
   fst (processSonoffDevice e st name) = st \<and>
   list_all (\<lambda>eff. \<not> is_publish eff) (snd (processSonoffDevice e st name))"
  by (auto simp: processSonoffDevice_def Let_def)

lemma processSonoffDevice_cases:
  "(fst (processSonoffDevice e st name) = st \<and>
    list_all (\<lambda>eff. \<not> is_publish eff) (snd (processSonoffDevice e st name))) \<or>
   (\<exists>ms. getStateValue e (sonoffAdapter @ ''.'' @ name @ ''.STATUS.StatusNET_Mac'') = JStr ms \<and>
         ms \<noteq> [] \<and> 1 \<le> parseGPIOs e name \<and> parseGPIOs e name \<le> 28)"
proof -
  let ?m = "getStateValue e (sonoffAdapter @ ''.'' @ name @ ''.STATUS.StatusNET_Mac'')"
  let ?n = "parseGPIOs e name"
  let ?info = "\<lparr>mac = ?m, friendlyName = name,
       model = getStateValue e (sonoffAdapter @ ''.'' @ name @ ''.INFO.Info1_Module''),
       version = getStateValue e (sonoffAdapter @ ''.'' @ name @ ''.INFO.Info1_Version''),
       relayCount = ?n, lastStates = replicate ?n JNull, lastAvailable = JNull\<rparr>"
  define r where "r = createZ2MDeviceDefinition ?info"
  define t where "t = truthy ?m"
  define q where "q = (?n = 0 \<or> ?n > 28)"
  have "\<not> t \<or> (t \<and> q) \<or> (t \<and> \<not> q \<and> (\<exists>err. r = Inl err)) \<or> (t \<and> \<not> q \<and> (\<exists>z. r = Inr z))"
    by (cases r) auto
  then consider (falsy) "\<not> truthy ?m" | (range) "truthy ?m" "?n = 0 \<or> ?n > 28"
    | (bad) "truthy ?m" "\<not> (?n = 0 \<or> ?n > 28)" "\<exists>err. createZ2MDeviceDefinition ?info = Inl err"
    | (good) "truthy ?m" "\<not> (?n = 0 \<or> ?n > 28)" "\<exists>z. createZ2MDeviceDefinition ?info = Inr z"
    unfolding r_def t_def q_def by blast
  then show ?thesis
  proof cases
    case falsy
    then show ?thesis by (simp add: processSonoffDevice_def)
  next
    case range
    then show ?thesis using processSonoffDevice_rejected [of e name st] by simp
  next
    case bad
    then show ?thesis by (auto simp: processSonoffDevice_def Let_def)
  next
    case good
    then obtain z where z: "createZ2MDeviceDefinition ?info = Inr z" by blast
    from createZ2MDeviceDefinition_Inr [OF z] obtain ms where ms: "?m = JStr ms" by auto
    with good(1) have "ms \<noteq> []" by simp
    with ms good(2) show ?thesis by auto
  qed
qed

lemma processSonoffDevice_registry_ok:
  assumes "registry_ok (sonoffDevices st)"
  shows "registry_ok (sonoffDevices (fst (processSonoffDevice e st name)))"
  using processSonoffDevice_cases [of e st name]
proof
  assume "fst (processSonoffDevice e st name) = st \<and>
    list_all (\<lambda>eff. \<not> is_publish eff) (snd (processSonoffDevice e st name))"
  with assms show ?thesis by simp
next
  assume "\<exists>ms. getStateValue e (sonoffAdapter @ ''.'' @ name @ ''.STATUS.StatusNET_Mac'') = JStr ms \<and>
         ms \<noteq> [] \<and> 1 \<le> parseGPIOs e name \<and> parseGPIOs e name \<le> 28"
  then obtain ms where ms: "getStateValue e (sonoffAdapter @ ''.'' @ name @ ''.STATUS.StatusNET_Mac'') = JStr ms"
    "ms \<noteq> []" "1 \<le> parseGPIOs e name" "parseGPIOs e name \<le> 28" by blast
  from processSonoffDevice_accepted [OF ms, of st] obtain dev where
    d: "fst (processSonoffDevice e st name) = st\<lparr>sonoffDevices := Map_set (sonoffDevices st) (JStr ms) dev\<rparr>"
      "mac dev = JStr ms" "friendlyName dev = name" "friendly_name (z2mDevice dev) = name"
      "relayCount dev = parseGPIOs e name"
      "lastStates dev = map (\<lambda>i. getStateValue e (powerStateId name (parseGPIOs e name) i))
         [1 ..< Suc (parseGPIOs e name)]"
    by blast
  have "device_ok (JStr ms, dev)"
    using d(2-6) ms(3,4) by (simp add: device_ok_def del: upt_Suc)
  with assms d(1) show ?thesis by (simp add: registry_ok_Map_set)
qed

subsection \<open>Native state events in the Sonoff bridge\<close>


lemma js_set_in_range: "i < length xs \<Longrightarrow> js_set xs i v = xs[i := v]"
  by (simp add: js_set_def)

lemma handleSonoffPowerChange_unknown:
  "find_first (\<lambda>d. friendlyName d = name) (sonoffDevices st) = None \<Longrightarrow>
   handleSonoffPowerChange st name relayNum state = (st, [])"
  by (simp add: handleSonoffPowerChange_def)

lemma handleSonoffPowerChange_out_of_range:
  assumes "find_first (\<lambda>d. friendlyName d = name) (sonoffDevices st) = Some dev"
    and "case relayNum of None \<Rightarrow> True | Some num \<Rightarrow> num < 1 \<or> int (relayCount dev) < num"
  shows "handleSonoffPowerChange st name relayNum state = (st, [])"
  using assms by (auto simp: handleSonoffPowerChange_def Let_def split: option.splits)

lemma handleSonoffPowerChange_same:
  assumes "find_first (\<lambda>d. friendlyName d = name) (sonoffDevices st) = Some dev"
    and "js_nth (lastStates dev) (nat (num - 1)) = JBool (is_true state)"
  shows "handleSonoffPowerChange st name (Some num) state = (st, [])"
  using assms by (simp add: handleSonoffPowerChange_def Let_def)

lemma handleSonoffPowerChange_changed:
  assumes pre: "\<forall>kv \<in> set pre. friendlyName (snd kv) \<noteq> name"
    and nm: "friendlyName dev = name"
    and reg: "sonoffDevices st = pre @ (k, dev) # post"
    and rng: "1 \<le> num" "num \<le> int (relayCount dev)"
    and ch: "js_nth (lastStates dev) (nat (num - 1)) \<noteq> JBool (is_true state)"
  shows "handleSonoffPowerChange st name (Some num) state =
     (st\<lparr>sonoffDevices := pre @ (k, dev\<lparr>lastStates :=
          js_set (lastStates dev) (nat (num - 1)) (JBool (is_true state))\<rparr>) # post\<rparr>,
      publishDeviceState
        (pre @ (k, dev\<lparr>lastStates := js_set (lastStates dev) (nat (num - 1)) (JBool (is_true state))\<rparr>) # post)
        (mac dev) (js_set (lastStates dev) (nat (num - 1)) (JBool (is_true state)))
        (JBool (lastAvailable dev \<noteq> JBool False)))"
proof -
  have f: "find_first (\<lambda>d. friendlyName d = name) (sonoffDevices st) = Some dev"
    unfolding reg using pre nm by (intro find_first_pre) auto
  have m: "mutate_first (\<lambda>d. friendlyName d = name) f (sonoffDevices st) = pre @ (k, f dev) # post" for f
    unfolding reg using pre nm by (intro mutate_first_split) auto
  show ?thesis
    using f rng ch by (simp add: handleSonoffPowerChange_def Let_def m)
qed


subsection \<open>The state snapshot\<close>

lemma obj_set_fresh: "k \<notin> fst ` set kvs \<Longrightarrow> obj_set kvs k v = kvs @ [(k, v)]"
  by (induction kvs) auto

lemma fold_obj_set_fresh:
  assumes inj: "\<And>i j. i < j \<Longrightarrow> key j \<noteq> key i" and other: "\<And>i. key i \<noteq> k0"
  shows "fold (\<lambda>i p. obj_set p (key i) (g i)) [0 ..< k] [(k0, v)] =
           (k0, v) # map (\<lambda>i. (key i, g i)) [0 ..< k]"
proof (induction k)
  case 0
  then show ?case by simp
next
  case (Suc k)
  have "key k \<notin> fst ` set ((k0, v) # map (\<lambda>i. (key i, g i)) [0 ..< k])"
    using inj [of _ k] other [of k] by (auto simp: image_iff)
  from obj_set_fresh [OF this, of "g k"] Suc.IH show ?case by simp
qed

lemma state_payload_single:
  "state_payload (Suc 0) states = [(''linkquality'', JNum 255), (''state'', on_off (js_nth states 0))]"
  by (simp add: state_payload_def)

lemma state_payload_multi:
  assumes "n \<noteq> 1"
  shows "state_payload n states =
     (''linkquality'', JNum 255) #
     map (\<lambda>i. (''state_l'' @ show_nat (Suc i), on_off (js_nth states i))) [0 ..< n]"
proof -
  have inj: "''state_l'' @ show_nat (j + 1) \<noteq> ''state_l'' @ show_nat (i + 1)" if "i < j" for i j
    using that show_nat_inj [of "j + 1" "i + 1"] by auto
  have other: "''state_l'' @ show_nat (i + 1) \<noteq> ''linkquality''" for i
    by simp
  show ?thesis
    using assms
      fold_obj_set_fresh [of "\<lambda>i. ''state_l'' @ show_nat (i + 1)" "''linkquality''"
        "\<lambda>i. on_off (js_nth states i)" n "JNum 255", OF inj other]
    by (simp add: state_payload_def)
qed

lemma map_upt_cong: "(\<And>i. i < n \<Longrightarrow> f i = g i) \<Longrightarrow> map f [0 ..< n] = map g [0 ..< n]"
  by simp

lemma snapshot_state_payload:
  assumes "length (lastStates dev) = relayCount dev" "1 \<le> relayCount dev"
  shows "state_payload (relayCount dev) (lastStates dev) = snapshot dev"
proof (cases "relayCount dev = 1")
  case True
  with assms show ?thesis by (simp add: state_payload_single snapshot_def js_nth_def)
next
  case False
  have "map (\<lambda>i. (''state_l'' @ show_nat (Suc i), on_off (js_nth (lastStates dev) i))) [0 ..< relayCount dev] =
        map (\<lambda>i. (''state_l'' @ show_nat (Suc i), on_off (lastStates dev ! i))) [0 ..< relayCount dev]"
    using assms(1) by (intro map_upt_cong) (simp add: js_nth_def)
  with False show ?thesis by (simp add: state_payload_multi snapshot_def)
qed

text \<open>The states that discovery publishes render as the states it stores.\<close>

lemma snapshot_initial_states:
  assumes "relayCount dev = n" "1 \<le> n"
    and "lastStates dev = map pw [1 ..< Suc n]"
  shows "state_payload n (map (\<lambda>i. if pw i \<noteq> JNull then pw i else JBool False) [1 ..< Suc n]) =
         snapshot dev"
proof -
  have o: "on_off (if pw i \<noteq> JNull then pw i else JBool False) = on_off (pw i)" for i
    by (simp add: on_off_def)
  have nth: "[1 ..< Suc n] ! i = Suc i" if "i < n" for i
    using that by (simp del: upt_Suc)
  have l: "length (lastStates dev) = relayCount dev" using assms by simp
  have "state_payload n (map (\<lambda>i. if pw i \<noteq> JNull then pw i else JBool False) [1 ..< Suc n]) =
        state_payload n (lastStates dev)"
  proof (cases "n = 1")
    case True
    then show ?thesis using assms(3) o [of "Suc 0"] by (auto simp: state_payload_single js_nth_def)
  next
    case False
    have "map (\<lambda>i. (''state_l'' @ show_nat (Suc i),
              on_off (js_nth (map (\<lambda>i. if pw i \<noteq> JNull then pw i else JBool False) [1 ..< Suc n]) i))) [0 ..< n] =
          map (\<lambda>i. (''state_l'' @ show_nat (Suc i), on_off (js_nth (lastStates dev) i))) [0 ..< n]"
      using assms(3) nth by (intro map_upt_cong) (simp add: js_nth_def on_off_def del: upt_Suc)
    with False show ?thesis by (simp add: state_payload_multi del: upt_Suc)
  qed
  with snapshot_state_payload [OF l] assms(1,2) show ?thesis by simp
qed

lemma default_true_bool [simp]: "default_true (JBool b) = JBool b"
  by (simp add: default_true_def)

lemma publishDeviceState_entry:
  assumes "distinct (map fst (pre @ (k, dev) # post))"
  shows "publishDeviceState (pre @ (k, dev) # post) k states available =
     [Publish (z2mBaseTopic @ ''/'' @ friendly_name (z2mDevice dev))
        (Value (JObj (state_payload (relayCount dev) states))),
      Publish (z2mBaseTopic @ ''/'' @ friendly_name (z2mDevice dev) @ ''/availability'')
        (availability_payload (truthy (default_true available)))]"
  using Map_get_middle [OF assms] by (simp add: publishDeviceState_def publishMqtt_def)


subsection \<open>Every handler keeps the registry well-formed\<close>

lemma handleSonoffPowerChange_shape:
  "fst (handleSonoffPowerChange st name relayNum state) = st \<or>
   (\<exists>pre k dev post i v.
      sonoffDevices st = pre @ (k, dev) # post \<and> i < relayCount dev \<and>
      fst (handleSonoffPowerChange st name relayNum state) =
        st\<lparr>sonoffDevices := pre @ (k, dev\<lparr>lastStates := js_set (lastStates dev) i v\<rparr>) # post\<rparr>)"
proof (cases "find_first (\<lambda>d. friendlyName d = name) (sonoffDevices st)")
  case None
  then show ?thesis by (simp add: handleSonoffPowerChange_unknown)
next
  case (Some dev)
  from find_first_split [OF Some] obtain pre k post where
    sp: "sonoffDevices st = pre @ (k, dev) # post" "\<forall>kv \<in> set pre. friendlyName (snd kv) \<noteq> name"
      "friendlyName dev = name" by blast
  show ?thesis
  proof (cases relayNum)
    case None
    with Some show ?thesis by (simp add: handleSonoffPowerChange_out_of_range)
  next
    case (Some num)
    note num = this
    show ?thesis
    proof (cases "1 \<le> num \<and> num \<le> int (relayCount dev)")
      case False
      with \<open>find_first _ _ = Some dev\<close> num show ?thesis
        by (auto simp: handleSonoffPowerChange_out_of_range)
    next
      case True
      show ?thesis
      proof (cases "js_nth (lastStates dev) (nat (num - 1)) = JBool (is_true state)")
        case True
        with \<open>find_first _ _ = Some dev\<close> num show ?thesis
          by (simp add: handleSonoffPowerChange_same)
      next
        case False
        have i: "nat (num - 1) < relayCount dev" using True by auto
        from handleSonoffPowerChange_changed [OF sp(2) sp(3) sp(1) _ _ False] True i sp(1) num
        show ?thesis by (intro disjI2 exI [of _ pre] exI [of _ k] exI [of _ dev] exI [of _ post]
              exI [of _ "nat (num - 1)"] exI [of _ "JBool (is_true state)"]) simp
      qed
    qed
  qed
qed

lemma handleSonoffPowerChange_registry_ok:
  assumes "registry_ok (sonoffDevices st)"
  shows "registry_ok (sonoffDevices (fst (handleSonoffPowerChange st name relayNum state)))"
  using handleSonoffPowerChange_shape [of st name relayNum state]
proof
  assume "fst (handleSonoffPowerChange st name relayNum state) = st"
  with assms show ?thesis by simp
next
  assume "\<exists>pre k dev post i v.
      sonoffDevices st = pre @ (k, dev) # post \<and> i < relayCount dev \<and>
      fst (handleSonoffPowerChange st name relayNum state) =
        st\<lparr>sonoffDevices := pre @ (k, dev\<lparr>lastStates := js_set (lastStates dev) i v\<rparr>) # post\<rparr>"
  then obtain pre k dev post i v where
    h: "sonoffDevices st = pre @ (k, dev) # post" "i < relayCount dev"
      "fst (handleSonoffPowerChange st name relayNum state) =
        st\<lparr>sonoffDevices := pre @ (k, dev\<lparr>lastStates := js_set (lastStates dev) i v\<rparr>) # post\<rparr>"
    by blast
  have ok: "device_ok (k, dev)" using assms h(1) by (simp add: registry_ok_entry)
  then have "device_ok (k, dev\<lparr>lastStates := js_set (lastStates dev) i v\<rparr>)"
    using h(2) by (simp add: device_ok_def js_set_in_range)
  with assms h(1,3) show ?thesis by (simp add: registry_ok_replace [of pre k dev post])
qed

lemma handleSonoffAliveChange_unknown:
  "find_first (\<lambda>d. friendlyName d = name) (sonoffDevices st) = None \<Longrightarrow>
   handleSonoffAliveChange st name alive = (st, [])"
  by (simp add: handleSonoffAliveChange_def)

lemma handleSonoffAliveChange_same:
  assumes "find_first (\<lambda>d. friendlyName d = name) (sonoffDevices st) = Some dev"
    and "lastAvailable dev = JBool (is_true alive)"
  shows "handleSonoffAliveChange st name alive = (st, [])"
  using assms by (simp add: handleSonoffAliveChange_def Let_def)

lemma handleSonoffAliveChange_changed:
  assumes pre: "\<forall>kv \<in> set pre. friendlyName (snd kv) \<noteq> name"
    and nm: "friendlyName dev = name"
    and reg: "sonoffDevices st = pre @ (k, dev) # post"
    and ch: "lastAvailable dev \<noteq> JBool (is_true alive)"
  shows "handleSonoffAliveChange st name alive =
     (st\<lparr>sonoffDevices := pre @ (k, dev\<lparr>lastAvailable := JBool (is_true alive)\<rparr>) # post\<rparr>,
      publishDeviceState (pre @ (k, dev\<lparr>lastAvailable := JBool (is_true alive)\<rparr>) # post)
        (mac dev) (lastStates dev) (JBool (is_true alive)))"
proof -
  have f: "find_first (\<lambda>d. friendlyName d = name) (sonoffDevices st) = Some dev"
    unfolding reg using pre nm by (intro find_first_pre) auto
  have m: "mutate_first (\<lambda>d. friendlyName d = name) f (sonoffDevices st) = pre @ (k, f dev) # post" for f
    unfolding reg using pre nm by (intro mutate_first_split) auto
  show ?thesis
    using f ch by (simp add: handleSonoffAliveChange_def Let_def m)
qed

lemma handleSonoffAliveChange_shape:
  "handleSonoffAliveChange st name alive = (st, []) \<or>
   (\<exists>pre k dev post.
      sonoffDevices st = pre @ (k, dev) # post \<and>
      handleSonoffAliveChange st name alive =
        (st\<lparr>sonoffDevices := pre @ (k, dev\<lparr>lastAvailable := JBool (is_true alive)\<rparr>) # post\<rparr>,
         publishDeviceState (pre @ (k, dev\<lparr>lastAvailable := JBool (is_true alive)\<rparr>) # post)
           (mac dev) (lastStates dev) (JBool (is_true alive))))"
proof (cases "find_first (\<lambda>d. friendlyName d = name) (sonoffDevices st)")
  case None
  then show ?thesis by (simp add: handleSonoffAliveChange_unknown)
next
  case (Some dev)
  from find_first_split [OF Some] obtain pre k post where
    sp: "sonoffDevices st = pre @ (k, dev) # post" "\<forall>kv \<in> set pre. friendlyName (snd kv) \<noteq> name"
      "friendlyName dev = name" by blast
  show ?thesis
  proof (cases "lastAvailable dev = JBool (is_true alive)")
    case True
    with Some show ?thesis by (simp add: handleSonoffAliveChange_same)
  next
    case False
    from handleSonoffAliveChange_changed [OF sp(2) sp(3) sp(1) False] sp(1)
    show ?thesis by blast
  qed
qed

lemma handleSonoffAliveChange_registry_ok:
  assumes "registry_ok (sonoffDevices st)"
  shows "registry_ok (sonoffDevices (fst (handleSonoffAliveChange st name alive)))"
  using handleSonoffAliveChange_shape [of st name alive]
proof
  assume "handleSonoffAliveChange st name alive = (st, [])"
  with assms show ?thesis by simp
next
  assume "\<exists>pre k dev post.
      sonoffDevices st = pre @ (k, dev) # post \<and>
      handleSonoffAliveChange st name alive =
        (st\<lparr>sonoffDevices := pre @ (k, dev\<lparr>lastAvailable := JBool (is_true alive)\<rparr>) # post\<rparr>,
         publishDeviceState (pre @ (k, dev\<lparr>lastAvailable := JBool (is_true alive)\<rparr>) # post)
           (mac dev) (lastStates dev) (JBool (is_true alive)))"
  then obtain pre k dev post where
    h: "sonoffDevices st = pre @ (k, dev) # post"
      "fst (handleSonoffAliveChange st name alive) =
        st\<lparr>sonoffDevices := pre @ (k, dev\<lparr>lastAvailable := JBool (is_true alive)\<rparr>) # post\<rparr>"
    by force
  have ok: "device_ok (k, dev)" using assms h(1) by (simp add: registry_ok_entry)
  then have "device_ok (k, dev\<lparr>lastAvailable := JBool (is_true alive)\<rparr>)"
    by (simp add: device_ok_def)
  with assms h show ?thesis by (simp add: registry_ok_replace [of pre k dev post])
qed

lemma handleZ2MSetCommand_state: "fst (handleZ2MSetCommand e st name payload) = st"
  by (simp add: handleZ2MSetCommand_def Let_def split: option.splits)

lemma step_registry_ok:
  "registry_ok (sonoffDevices st) \<Longrightarrow> registry_ok (sonoffDevices (fst (step st ev)))"
  by (cases ev)
     (simp_all add: processSonoffDevice_registry_ok handleSonoffPowerChange_registry_ok
       handleSonoffAliveChange_registry_ok handleZ2MSetCommand_state onStop_def)

lemma run_registry_ok:
  "registry_ok (sonoffDevices st) \<Longrightarrow> registry_ok (sonoffDevices (fst (run st evs)))"
  by (induction evs arbitrary: st) (simp_all add: Let_def step_registry_ok)

lemma start_registry_ok: "registry_ok (sonoffDevices start)"
  by (simp add: start_def registry_ok_empty)

lemma list_all_weaken: "list_all P xs \<Longrightarrow> (\<And>x. P x \<Longrightarrow> Q x) \<Longrightarrow> list_all Q xs"
  by (induction xs) auto

lemma registry_ok_lengths: "registry_ok m \<Longrightarrow> list_all one_state_per_relay m"
  unfolding registry_ok_def
  by (elim conjE list_all_weaken) (simp add: device_ok_def one_state_per_relay_def)

lemma registry_ok_counts: "registry_ok m \<Longrightarrow> list_all relay_count_in_range m"
  unfolding registry_ok_def
  by (elim conjE list_all_weaken) (simp add: device_ok_def relay_count_in_range_def)


subsection \<open>Facts about the example hosts\<close>

lemma plug_host_mac:
  "getStateValue (plug_host n states texts) (sonoffAdapter @ ''.'' @ ''plug'' @ ''.STATUS.StatusNET_Mac'') =
     JStr ''60:01:94:CC:5E:44''"
proof -
  have "''sonoff.0.plug.STATUS.StatusNET_Mac'' \<notin> set (gpio_ids n)"
    by (auto simp: gpio_ids_def)
  then have "map_of (map (\<lambda>stateId. (stateId, JNum 224)) (gpio_ids n))
               ''sonoff.0.plug.STATUS.StatusNET_Mac'' = None"
    by (simp add: map_of_map_restrict)
  then show ?thesis
    by (simp add: getStateValue_def plug_host_def sonoffAdapter_def map_add_def)
qed

lemma plug_host_gpio:
  assumes "stateId \<in> set (gpio_ids n)"
  shows "relay_value (plug_host n states texts) (getStateValue (plug_host n states texts) stateId)"
proof -
  have "map_of (map (\<lambda>stateId. (stateId, JNum 224)) (gpio_ids n)) stateId = Some (JNum 224)"
    using assms by (simp add: map_of_map_restrict)
  then have "getStateValue (plug_host n states texts) stateId = JNum 224"
    by (simp add: getStateValue_def plug_host_def map_add_def)
  then show ?thesis by (simp add: relay_value_def)
qed

lemma plug_host_count: "parseGPIOs (plug_host n states texts) ''plug'' = n"
proof -
  have s: "select (plug_host n states texts) (sonoffAdapter @ ''.'' @ ''plug'' @ ''.GPIO_*'') = gpio_ids n"
    by (simp add: plug_host_def sonoffAdapter_def)
  have "filter (\<lambda>stateId. relay_value (plug_host n states texts)
           (getStateValue (plug_host n states texts) stateId)) (gpio_ids n) = gpio_ids n"
    using plug_host_gpio by (intro filter_True) blast
  then show ?thesis unfolding parseGPIOs_def s by (simp add: gpio_ids_def)
qed

lemma plug_bridge_ok: "registry_ok (sonoffDevices (plug_bridge pw))"
  by (simp add: registry_ok_def device_ok_def plug_bridge_def plug_device_def)

lemma find_plug_native:
  "find_first (\<lambda>d. friendlyName d = ''plug'') (sonoffDevices (plug_bridge pw)) = Some (plug_device pw)"
  by (simp add: find_first_def plug_bridge_def plug_device_def)

subsection \<open>Invariants of the registry\<close>

lemma power_change_writes_in_place:
  assumes ok: "registry_ok (sonoffDevices st)"
    and found: "find_first (\<lambda>d. friendlyName d = name) (sonoffDevices st) = Some dev"
    and rng: "1 \<le> num" "num \<le> int (relayCount dev)"
  shows "map_option lastStates
           (Map_get (sonoffDevices (fst (handleSonoffPowerChange st name (Some num) state))) (mac dev)) =
         Some ((lastStates dev)[nat (num - 1) := JBool (is_true state)])"
proof -
  from find_first_split [OF found] obtain pre k post where
    sp: "sonoffDevices st = pre @ (k, dev) # post" "\<forall>kv \<in> set pre. friendlyName (snd kv) \<noteq> name"
      "friendlyName dev = name" by blast
  have dok: "device_ok (k, dev)" using ok sp(1) by (simp add: registry_ok_entry)
  then have k: "k = mac dev" and len: "length (lastStates dev) = relayCount dev"
    by (simp_all add: device_ok_def)
  have i: "nat (num - 1) < length (lastStates dev)" using rng len by auto
  have d: "distinct (map fst (pre @ (k, dev) # post))" using ok sp(1) by (simp add: registry_ok_def)
  show ?thesis
  proof (cases "js_nth (lastStates dev) (nat (num - 1)) = JBool (is_true state)")
    case True
    then have "(lastStates dev)[nat (num - 1) := JBool (is_true state)] = lastStates dev"
      using i by (simp add: js_nth_def list_update_same_conv)
    moreover have "Map_get (sonoffDevices st) (mac dev) = Some dev"
      using Map_get_middle [OF d] sp(1) k by simp
    ultimately show ?thesis
      using handleSonoffPowerChange_same [OF found True] by simp
  next
    case False
    let ?dev = "dev\<lparr>lastStates := js_set (lastStates dev) (nat (num - 1)) (JBool (is_true state))\<rparr>"
    have d': "distinct (map fst (pre @ (k, ?dev) # post))" using d by simp
    show ?thesis
      using handleSonoffPowerChange_changed [OF sp(2) sp(3) sp(1) rng False]
        Map_get_middle [OF d'] k i
      by (simp add: js_set_in_range)
  qed
qed

text \<open>
  C7. After any sequence of events from the empty registry, every stored device has as
  many \<^verbatim>\<open>lastStates\<close> entries as relays, and every single event keeps it so in a
  well-formed registry. A power event whose relay number is NaN or outside
  \<open>1 .. relayCount\<close> changes nothing; one inside writes exactly the entry
  \<open>relayNum - 1\<close> of the device's \<^verbatim>\<open>lastStates\<close>.
\<close>

theorem one_state_per_relay_always:
  "list_all one_state_per_relay (sonoffDevices (fst (run start evs))) \<and>
   (registry_ok (sonoffDevices st) \<longrightarrow>
      list_all one_state_per_relay (sonoffDevices (fst (step st ev)))) \<and>
   (find_first (\<lambda>d. friendlyName d = name) (sonoffDevices st) = Some dev \<longrightarrow>
    (case relayNum of None \<Rightarrow> True | Some num \<Rightarrow> num < 1 \<or> int (relayCount dev) < num) \<longrightarrow>
      handleSonoffPowerChange st name relayNum state = (st, [])) \<and>
   (registry_ok (sonoffDevices st) \<longrightarrow>
    find_first (\<lambda>d. friendlyName d = name) (sonoffDevices st) = Some dev \<longrightarrow>
    1 \<le> num \<longrightarrow> num \<le> int (relayCount dev) \<longrightarrow>
      map_option lastStates
        (Map_get (sonoffDevices (fst (handleSonoffPowerChange st name (Some num) state))) (mac dev)) =
      Some ((lastStates dev)[nat (num - 1) := JBool (is_true state)]))"
proof -
  have a: "list_all one_state_per_relay (sonoffDevices (fst (run start evs)))"
    using run_registry_ok [OF start_registry_ok] by (rule registry_ok_lengths)
  have b: "registry_ok (sonoffDevices st) \<longrightarrow>
      list_all one_state_per_relay (sonoffDevices (fst (step st ev)))"
    using step_registry_ok registry_ok_lengths by blast
  have c: "find_first (\<lambda>d. friendlyName d = name) (sonoffDevices st) = Some dev \<longrightarrow>
    (case relayNum of None \<Rightarrow> True | Some num \<Rightarrow> num < 1 \<or> int (relayCount dev) < num) \<longrightarrow>
      handleSonoffPowerChange st name relayNum state = (st, [])"
    using handleSonoffPowerChange_out_of_range by blast
  have d: "registry_ok (sonoffDevices st) \<longrightarrow>
    find_first (\<lambda>d. friendlyName d = name) (sonoffDevices st) = Some dev \<longrightarrow>
    1 \<le> num \<longrightarrow> num \<le> int (relayCount dev) \<longrightarrow>
      map_option lastStates
        (Map_get (sonoffDevices (fst (handleSonoffPowerChange st name (Some num) state))) (mac dev)) =
      Some ((lastStates dev)[nat (num - 1) := JBool (is_true state)])"
    using power_change_writes_in_place by blast
  from a b c d show ?thesis by (intro conjI)
qed

theorem one_state_per_relay_always_witness:
  "list_all one_state_per_relay
     (sonoffDevices (fst (run start
        [Discovery (plug_host 2 [] []) ''plug'', PowerChange ''plug'' (Some 2) (JBool True),
         AliveChange ''plug'' (JBool False)]))) \<and>
   list_all one_state_per_relay
     (sonoffDevices (fst (step (plug_bridge JNull) (PowerChange ''plug'' (Some 1) (JBool True))))) \<and>
   handleSonoffPowerChange (plug_bridge JNull) ''plug'' (Some 2) (JBool True) = (plug_bridge JNull, []) \<and>
   map_option lastStates
     (Map_get (sonoffDevices (fst (handleSonoffPowerChange (plug_bridge JNull) ''plug'' (Some 1) (JBool True))))
        (JStr ''60:01:94:CC:5E:44'')) = Some [JBool True]"
  using one_state_per_relay_always
    [of "[Discovery (plug_host 2 [] []) ''plug'', PowerChange ''plug'' (Some 2) (JBool True),
          AliveChange ''plug'' (JBool False)]"
        "plug_bridge JNull" "PowerChange ''plug'' (Some 1) (JBool True)" "''plug''"
        "plug_device JNull" "Some 2" "JBool True" 1]
    plug_bridge_ok [of JNull] find_plug_native [of JNull]
  by (simp add: plug_device_def is_true_def)


lemma accepted_relay_count:
  assumes "getStateValue e (sonoffAdapter @ ''.'' @ name @ ''.STATUS.StatusNET_Mac'') = JStr ms"
    and "ms \<noteq> []" and "1 \<le> parseGPIOs e name" and "parseGPIOs e name \<le> 28"
  shows "map_option relayCount
           (Map_get (sonoffDevices (fst (processSonoffDevice e st name))) (JStr ms)) =
         Some (parseGPIOs e name)"
proof -
  from processSonoffDevice_accepted [OF assms, of st] obtain dev where
    "fst (processSonoffDevice e st name) = st\<lparr>sonoffDevices := Map_set (sonoffDevices st) (JStr ms) dev\<rparr>"
    "relayCount dev = parseGPIOs e name" by blast
  then show ?thesis by (simp add: Map_get_Map_set_same)
qed

text \<open>
  C5. A device folder whose relay count is 0 or above 28 leaves the registry as it was.
  One whose count is between 1 and 28 (and whose MAC address is a non-empty string) is
  stored under its MAC with that count; this covers the counts 1 and 28. After any
  sequence of events from the empty registry, every stored device has a relay count
  between 1 and 28.
\<close>

theorem relay_count_boundary:
  "(parseGPIOs e name = 0 \<or> 28 < parseGPIOs e name \<longrightarrow>
      fst (processSonoffDevice e st name) = st) \<and>
   (getStateValue e (sonoffAdapter @ ''.'' @ name @ ''.STATUS.StatusNET_Mac'') = JStr ms \<longrightarrow>
    ms \<noteq> [] \<longrightarrow> 1 \<le> parseGPIOs e name \<longrightarrow> parseGPIOs e name \<le> 28 \<longrightarrow>
      map_option relayCount
        (Map_get (sonoffDevices (fst (processSonoffDevice e st name))) (JStr ms)) =
      Some (parseGPIOs e name)) \<and>
   list_all relay_count_in_range (sonoffDevices (fst (run start evs)))"
proof -
  have a: "parseGPIOs e name = 0 \<or> 28 < parseGPIOs e name \<longrightarrow>
      fst (processSonoffDevice e st name) = st"
    using processSonoffDevice_rejected by blast
  have b: "getStateValue e (sonoffAdapter @ ''.'' @ name @ ''.STATUS.StatusNET_Mac'') = JStr ms \<longrightarrow>
    ms \<noteq> [] \<longrightarrow> 1 \<le> parseGPIOs e name \<longrightarrow> parseGPIOs e name \<le> 28 \<longrightarrow>
      map_option relayCount
        (Map_get (sonoffDevices (fst (processSonoffDevice e st name))) (JStr ms)) =
      Some (parseGPIOs e name)"
    using accepted_relay_count by blast
  have c: "list_all relay_count_in_range (sonoffDevices (fst (run start evs)))"
    using run_registry_ok [OF start_registry_ok] by (rule registry_ok_counts)
  from a b c show ?thesis by (intro conjI)
qed

theorem relay_count_boundary_witness:
  "fst (processSonoffDevice (plug_host 0 [] []) start ''plug'') = start \<and>
   fst (processSonoffDevice (plug_host 29 [] []) start ''plug'') = start \<and>
   map_option relayCount
     (Map_get (sonoffDevices (fst (processSonoffDevice (plug_host 1 [] []) start ''plug'')))
        (JStr ''60:01:94:CC:5E:44'')) = Some 1 \<and>
   map_option relayCount
     (Map_get (sonoffDevices (fst (processSonoffDevice (plug_host 28 [] []) start ''plug'')))
        (JStr ''60:01:94:CC:5E:44'')) = Some 28 \<and>
   list_all relay_count_in_range
     (sonoffDevices (fst (run start
        [Discovery (plug_host 29 [] []) ''plug'', Discovery (plug_host 28 [] []) ''plug''])))"
  using relay_count_boundary [of "plug_host 0 [] []" "''plug''" start "''60:01:94:CC:5E:44''" "[]"]
    relay_count_boundary [of "plug_host 29 [] []" "''plug''" start "''60:01:94:CC:5E:44''" "[]"]
    relay_count_boundary [of "plug_host 1 [] []" "''plug''" start "''60:01:94:CC:5E:44''" "[]"]
    relay_count_boundary [of "plug_host 28 [] []" "''plug''" start "''60:01:94:CC:5E:44''"
      "[Discovery (plug_host 29 [] []) ''plug'', Discovery (plug_host 28 [] []) ''plug'']"]
    plug_host_mac [of 1 "[]" "[]"] plug_host_mac [of 28 "[]" "[]"]
  by (simp add: plug_host_count del: run.simps)


subsection \<open>The description built at discovery\<close>

lemma filter_switch_exposes:
  "filter is_switch (map (switch_expose n) xs @ [linkquality_expose]) = map (switch_expose n) xs"
  by (induction xs) (simp_all add: switch_expose_def linkquality_expose_def)

lemma switch_expose_endpoints:
  "map e_endpoint (map (switch_expose n) xs) = map (\<lambda>i. ''l'' @ show_nat i) xs"
  by (induction xs) (simp_all add: switch_expose_def)

lemma switch_expose_properties:
  "map f_property (concat (map e_features (map (switch_expose n) xs))) =
     map (\<lambda>i. if n = 1 then ''state'' else ''state_l'' @ show_nat i) xs"
  by (induction xs) (simp_all add: switch_expose_def)

lemma switch_expose_feature_endpoints:
  "map f_endpoint (concat (map e_features (map (switch_expose n) xs))) =
     map (\<lambda>i. ''l'' @ show_nat i) xs"
  by (induction xs) (simp_all add: switch_expose_def)

lemma endpoint_entry_names:
  "map (\<lambda>kv. ep_name (snd kv)) (map endpoint_entry xs) = map (\<lambda>i. ''l'' @ show_nat i) xs"
  by (induction xs) (simp_all add: endpoint_entry_def)

lemma createZ2MDeviceDefinition_parts:
  assumes "createZ2MDeviceDefinition info = Inr z"
  shows "switches z = map (switch_expose (relayCount info)) [1 ..< Suc (relayCount info)]"
    and "endpoints z = map endpoint_entry [1 ..< Suc (relayCount info)]"
proof -
  from createZ2MDeviceDefinition_Inr [OF assms] obtain ms where ms: "mac info = JStr ms" by blast
  have e: "exposes z = map (switch_expose (relayCount info)) [1 ..< Suc (relayCount info)] @ [linkquality_expose]"
    using assms ms by (cases "relayCount info = 0") (auto simp: createZ2MDeviceDefinition_def)
  show "switches z = map (switch_expose (relayCount info)) [1 ..< Suc (relayCount info)]"
    unfolding switches_def e by (rule filter_switch_exposes)
  show "endpoints z = map endpoint_entry [1 ..< Suc (relayCount info)]"
    using assms ms by (auto simp: createZ2MDeviceDefinition_def)
qed

lemma state_keys_distinct: "distinct (map (\<lambda>i. ''state_l'' @ show_nat i) [a ..< b])"
proof -
  have "inj_on (\<lambda>i. ''state_l'' @ show_nat i) (set [a ..< b])"
    by (rule inj_onI) (use show_nat_inj in auto)
  then show ?thesis by (simp add: distinct_map)
qed

text \<open>
  C6. The description that \<^verbatim>\<open>createZ2MDeviceDefinition\<close> builds for \<open>relayCount = 1\<close> has
  one switch feature, with the property key \<^verbatim>\<open>state\<close>; for \<open>relayCount = N > 1\<close> it has
  N switch features with the property keys \<^verbatim>\<open>state_l1\<close> .. \<^verbatim>\<open>state_lN\<close>, all different,
  on the endpoints \<^verbatim>\<open>l1\<close> .. \<^verbatim>\<open>lN\<close>, which are also the names in its endpoint map.
\<close>

theorem endpoint_naming:
  assumes "createZ2MDeviceDefinition info = Inr z"
  shows "(relayCount info = 1 \<longrightarrow>
            map f_property (switch_features z) = [''state''] \<and>
            map e_endpoint (switches z) = [''l1'']) \<and>
         (1 < relayCount info \<longrightarrow>
            length (switches z) = relayCount info \<and>
            length (switch_features z) = relayCount info \<and>
            map f_property (switch_features z) =
              map (\<lambda>i. ''state_l'' @ show_nat i) [1 ..< Suc (relayCount info)] \<and>
            distinct (map f_property (switch_features z)) \<and>
            map f_endpoint (switch_features z) =
              map (\<lambda>i. ''l'' @ show_nat i) [1 ..< Suc (relayCount info)] \<and>
            map e_endpoint (switches z) =
              map (\<lambda>i. ''l'' @ show_nat i) [1 ..< Suc (relayCount info)] \<and>
            map (\<lambda>kv. ep_name (snd kv)) (endpoints z) =
              map (\<lambda>i. ''l'' @ show_nat i) [1 ..< Suc (relayCount info)])"
proof -
  note p = createZ2MDeviceDefinition_parts [OF assms]
  let ?n = "relayCount info"
  have props: "map f_property (switch_features z) =
      map (\<lambda>i. if ?n = 1 then ''state'' else ''state_l'' @ show_nat i) [1 ..< Suc ?n]"
    unfolding switch_features_def p(1) by (rule switch_expose_properties)
  have feps: "map f_endpoint (switch_features z) = map (\<lambda>i. ''l'' @ show_nat i) [1 ..< Suc ?n]"
    unfolding switch_features_def p(1) by (rule switch_expose_feature_endpoints)
  have eps: "map e_endpoint (switches z) = map (\<lambda>i. ''l'' @ show_nat i) [1 ..< Suc ?n]"
    unfolding p(1) by (rule switch_expose_endpoints)
  have names: "map (\<lambda>kv. ep_name (snd kv)) (endpoints z) = map (\<lambda>i. ''l'' @ show_nat i) [1 ..< Suc ?n]"
    unfolding p(2) by (rule endpoint_entry_names)
  have len: "length (switches z) = ?n" unfolding p(1) by simp
  have flen: "length (switch_features z) = ?n"
    using arg_cong [OF props, of length] by simp
  have one: "?n = 1 \<longrightarrow> map f_property (switch_features z) = [''state''] \<and>
      map e_endpoint (switches z) = [''l1'']"
    using props eps by (simp add: show_nat_1)
  have multi: "1 < ?n \<longrightarrow> map f_property (switch_features z) =
      map (\<lambda>i. ''state_l'' @ show_nat i) [1 ..< Suc ?n]"
    using props by simp
  have dist: "1 < ?n \<longrightarrow> distinct (map f_property (switch_features z))"
    using multi state_keys_distinct [of 1 "Suc ?n"] by (simp del: upt_Suc)
  from one multi dist len flen feps eps names show ?thesis by (intro conjI impI) simp_all
qed

theorem endpoint_naming_witness:
  "map_sum id (\<lambda>z. map f_property (switch_features z)) (createZ2MDeviceDefinition (plug_info 1)) =
     Inr [''state''] \<and>
   map_sum id (\<lambda>z. map f_property (switch_features z)) (createZ2MDeviceDefinition (plug_info 3)) =
     Inr [''state_l1'', ''state_l2'', ''state_l3''] \<and>
   map_sum id (\<lambda>z. map e_endpoint (switches z)) (createZ2MDeviceDefinition (plug_info 3)) =
     Inr [''l1'', ''l2'', ''l3'']"
proof -
  obtain z1 where z1: "createZ2MDeviceDefinition (plug_info 1) = Inr z1"
    using createZ2MDeviceDefinition_JStr [of "plug_info 1"] by (auto simp: plug_info_def)
  obtain z3 where z3: "createZ2MDeviceDefinition (plug_info 3) = Inr z3"
    using createZ2MDeviceDefinition_JStr [of "plug_info 3"] by (auto simp: plug_info_def)
  have u: "[Suc 0 ..< 4] = [Suc 0, 2, 3]" by (simp add: upt_rec)
  show ?thesis
    using endpoint_naming [OF z1] endpoint_naming [OF z3] z1 z3
    by (simp add: plug_info_def u js_eval)
qed


subsection \<open>What the handlers publish\<close>

lemma handleSonoffPowerChange_result:
  assumes unchanged: "handleSonoffPowerChange st name relayNum state = (st, []) \<Longrightarrow> thesis"
    and changed: "\<And>pre k dev post i.
      sonoffDevices st = pre @ (k, dev) # post \<Longrightarrow> i < relayCount dev \<Longrightarrow>
      handleSonoffPowerChange st name relayNum state =
        (st\<lparr>sonoffDevices :=
             pre @ (k, dev\<lparr>lastStates := js_set (lastStates dev) i (JBool (is_true state))\<rparr>) # post\<rparr>,
         publishDeviceState
           (pre @ (k, dev\<lparr>lastStates := js_set (lastStates dev) i (JBool (is_true state))\<rparr>) # post)
           (mac dev) (js_set (lastStates dev) i (JBool (is_true state)))
           (JBool (lastAvailable dev \<noteq> JBool False))) \<Longrightarrow> thesis"
  shows thesis
proof (cases "find_first (\<lambda>d. friendlyName d = name) (sonoffDevices st)")
  case None
  then show ?thesis by (intro unchanged) (simp add: handleSonoffPowerChange_unknown)
next
  case (Some dev)
  note found = this
  from find_first_split [OF Some] obtain pre k post where
    sp: "sonoffDevices st = pre @ (k, dev) # post" "\<forall>kv \<in> set pre. friendlyName (snd kv) \<noteq> name"
      "friendlyName dev = name" by blast
  show ?thesis
  proof (cases relayNum)
    case None
    with found show ?thesis by (intro unchanged) (simp add: handleSonoffPowerChange_out_of_range)
  next
    case (Some num)
    note num = this
    show ?thesis
    proof (cases "1 \<le> num \<and> num \<le> int (relayCount dev)")
      case False
      with found num show ?thesis
        by (intro unchanged) (auto simp: handleSonoffPowerChange_out_of_range)
    next
      case True
      show ?thesis
      proof (cases "js_nth (lastStates dev) (nat (num - 1)) = JBool (is_true state)")
        case True
        with found num show ?thesis by (intro unchanged) (simp add: handleSonoffPowerChange_same)
      next
        case False
        have i: "nat (num - 1) < relayCount dev" using True by auto
        have r1: "1 \<le> num" and r2: "num \<le> int (relayCount dev)" using True by simp_all
        show ?thesis
          by (rule changed [OF sp(1) i])
             (simp only: num handleSonoffPowerChange_changed [OF sp(2) sp(3) sp(1) r1 r2 False])
      qed
    qed
  qed
qed

lemma complete_snapshot_other: "\<not> is_publish eff \<Longrightarrow> complete_snapshot st eff"
  by (cases eff) simp_all

lemma complete_snapshot_no_publish:
  "list_all (\<lambda>eff. \<not> is_publish eff) effs \<Longrightarrow> list_all (complete_snapshot st) effs"
  by (erule list_all_weaken) (rule complete_snapshot_other)

lemma complete_snapshot_availability:
  "complete_snapshot st (Publish (b @ CHR ''/'' # name @ ''/availability'') (availability_payload a))"
  by (simp add: availability_payload_def is_marker_def ends_with_topic_cons)

lemma list_ex_Map_set: "P (k, v) \<Longrightarrow> list_ex P (Map_set m k v)"
  by (induction m) auto

lemma publishDeviceState_complete:
  assumes "registry_ok (pre @ (k, dev) # post)"
    and "sonoffDevices st' = pre @ (k, dev) # post"
    and "states = lastStates dev"
  shows "list_all (complete_snapshot st')
           (publishDeviceState (pre @ (k, dev) # post) (mac dev) states available)"
proof -
  have ok: "device_ok (k, dev)" using assms(1) by (rule registry_ok_entry)
  then have k: "k = mac dev" and len: "length (lastStates dev) = relayCount dev"
    and one: "1 \<le> relayCount dev"
    by (simp_all add: device_ok_def)
  have d: "distinct (map fst (pre @ (k, dev) # post))" using assms(1) by (simp add: registry_ok_def)
  have sn: "state_payload (relayCount dev) states = snapshot dev"
    using snapshot_state_payload [OF len one] assms(3) by simp
  have "snapshot_of (z2mBaseTopic @ ''/'' @ friendly_name (z2mDevice dev)) (snapshot dev) (k, dev)"
    by (simp add: snapshot_of_def)
  then have ex: "list_ex (snapshot_of (z2mBaseTopic @ ''/'' @ friendly_name (z2mDevice dev)) (snapshot dev))
      (sonoffDevices st')"
    unfolding assms(2) by simp
  show ?thesis
    using publishDeviceState_entry [OF d, of states available] k sn ex
      complete_snapshot_availability [of st']
    by simp
qed

lemma handleSonoffPowerChange_complete:
  assumes "registry_ok (sonoffDevices st)"
  shows "list_all (complete_snapshot (fst (handleSonoffPowerChange st name relayNum state)))
           (snd (handleSonoffPowerChange st name relayNum state))"
proof (rule handleSonoffPowerChange_result [of st name relayNum state])
  assume "handleSonoffPowerChange st name relayNum state = (st, [])"
  then show ?thesis by simp
next
  fix pre k post i and dev :: device
  let ?dev = "dev\<lparr>lastStates := js_set (lastStates dev) i (JBool (is_true state))\<rparr>"
  let ?st = "st\<lparr>sonoffDevices := pre @ (k, ?dev) # post\<rparr>"
  assume h: "handleSonoffPowerChange st name relayNum state =
        (?st, publishDeviceState (pre @ (k, ?dev) # post)
           (mac dev) (js_set (lastStates dev) i (JBool (is_true state)))
           (JBool (lastAvailable dev \<noteq> JBool False)))"
  have "registry_ok (sonoffDevices (fst (handleSonoffPowerChange st name relayNum state)))"
    using assms by (rule handleSonoffPowerChange_registry_ok)
  then have ok: "registry_ok (pre @ (k, ?dev) # post)" unfolding h by simp
  have s: "sonoffDevices ?st = pre @ (k, ?dev) # post" by simp
  have l: "js_set (lastStates dev) i (JBool (is_true state)) = lastStates ?dev" by simp
  have m: "mac dev = mac ?dev" by simp
  show ?thesis
    unfolding h fst_conv snd_conv m by (rule publishDeviceState_complete [OF ok s l])
qed

lemma handleSonoffAliveChange_result:
  assumes unchanged: "handleSonoffAliveChange st name alive = (st, []) \<Longrightarrow> thesis"
    and changed: "\<And>pre k dev post.
      sonoffDevices st = pre @ (k, dev) # post \<Longrightarrow>
      handleSonoffAliveChange st name alive =
        (st\<lparr>sonoffDevices := pre @ (k, dev\<lparr>lastAvailable := JBool (is_true alive)\<rparr>) # post\<rparr>,
         publishDeviceState (pre @ (k, dev\<lparr>lastAvailable := JBool (is_true alive)\<rparr>) # post)
           (mac dev) (lastStates dev) (JBool (is_true alive))) \<Longrightarrow> thesis"
  shows thesis
proof (cases "find_first (\<lambda>d. friendlyName d = name) (sonoffDevices st)")
  case None
  then show ?thesis by (intro unchanged) (simp add: handleSonoffAliveChange_unknown)
next
  case (Some dev)
  from find_first_split [OF Some] obtain pre k post where
    sp: "sonoffDevices st = pre @ (k, dev) # post" "\<forall>kv \<in> set pre. friendlyName (snd kv) \<noteq> name"
      "friendlyName dev = name" by blast
  show ?thesis
  proof (cases "lastAvailable dev = JBool (is_true alive)")
    case True
    with Some show ?thesis by (intro unchanged) (simp add: handleSonoffAliveChange_same)
  next
    case False
    show ?thesis
      using handleSonoffAliveChange_changed [OF sp(2) sp(3) sp(1) False]
      by (rule changed [OF sp(1)])
  qed
qed

lemma handleSonoffAliveChange_complete:
  assumes "registry_ok (sonoffDevices st)"
  shows "list_all (complete_snapshot (fst (handleSonoffAliveChange st name alive)))
           (snd (handleSonoffAliveChange st name alive))"
proof (rule handleSonoffAliveChange_result [of st name alive])
  assume "handleSonoffAliveChange st name alive = (st, [])"
  then show ?thesis by simp
next
  fix pre k post and dev :: device
  let ?dev = "dev\<lparr>lastAvailable := JBool (is_true alive)\<rparr>"
  let ?st = "st\<lparr>sonoffDevices := pre @ (k, ?dev) # post\<rparr>"
  assume h: "handleSonoffAliveChange st name alive =
        (?st, publishDeviceState (pre @ (k, ?dev) # post)
           (mac dev) (lastStates dev) (JBool (is_true alive)))"
  have "registry_ok (sonoffDevices (fst (handleSonoffAliveChange st name alive)))"
    using assms by (rule handleSonoffAliveChange_registry_ok)
  then have ok: "registry_ok (pre @ (k, ?dev) # post)" unfolding h by simp
  have s: "sonoffDevices ?st = pre @ (k, ?dev) # post" by simp
  have l: "lastStates dev = lastStates ?dev" by simp
  have m: "mac dev = mac ?dev" by simp
  show ?thesis
    unfolding h fst_conv snd_conv m by (rule publishDeviceState_complete [OF ok s l])
qed


lemma processSonoffDevice_complete:
  assumes "registry_ok (sonoffDevices st)"
  shows "list_all (complete_snapshot (fst (processSonoffDevice e st name)))
           (snd (processSonoffDevice e st name))"
  using processSonoffDevice_cases [of e st name]
proof
  assume "fst (processSonoffDevice e st name) = st \<and>
    list_all (\<lambda>eff. \<not> is_publish eff) (snd (processSonoffDevice e st name))"
  then show ?thesis by (simp add: complete_snapshot_no_publish)
next
  assume "\<exists>ms. getStateValue e (sonoffAdapter @ ''.'' @ name @ ''.STATUS.StatusNET_Mac'') = JStr ms \<and>
         ms \<noteq> [] \<and> 1 \<le> parseGPIOs e name \<and> parseGPIOs e name \<le> 28"
  then obtain ms where ms: "getStateValue e (sonoffAdapter @ ''.'' @ name @ ''.STATUS.StatusNET_Mac'') = JStr ms"
    "ms \<noteq> []" "1 \<le> parseGPIOs e name" "parseGPIOs e name \<le> 28" by blast
  let ?n = "parseGPIOs e name"
  let ?pw = "\<lambda>i. getStateValue e (powerStateId name ?n i)"
  let ?alive = "getStateValue e (sonoffAdapter @ ''.'' @ name @ ''.alive'')"
  let ?payload = "state_payload ?n (map (\<lambda>i. if ?pw i \<noteq> JNull then ?pw i else JBool False) [1 ..< Suc ?n])"
  from processSonoffDevice_accepted [OF ms, of st] obtain dev where
    d: "fst (processSonoffDevice e st name) = st\<lparr>sonoffDevices := Map_set (sonoffDevices st) (JStr ms) dev\<rparr>"
      "friendly_name (z2mDevice dev) = name"
      "relayCount dev = ?n"
      "lastStates dev = map ?pw [1 ..< Suc ?n]"
    and eff: "\<exists>line. snd (processSonoffDevice e st name) =
       LogInfo line #
       (if initialized st \<and> ?alive \<noteq> JNull
        then [Publish (z2mBaseTopic @ ''/'' @ name) (Value (JObj ?payload)),
              Publish (z2mBaseTopic @ ''/'' @ name @ ''/availability'')
                (availability_payload (truthy (default_true ?alive)))]
        else [])"
    by blast
  from eff obtain line where
    eff': "snd (processSonoffDevice e st name) =
       LogInfo line #
       (if initialized st \<and> ?alive \<noteq> JNull
        then [Publish (z2mBaseTopic @ ''/'' @ name) (Value (JObj ?payload)),
              Publish (z2mBaseTopic @ ''/'' @ name @ ''/availability'')
                (availability_payload (truthy (default_true ?alive)))]
        else [])" ..
  have sn: "?payload = snapshot dev"
    using snapshot_initial_states [OF d(3) ms(3) d(4)] .
  have "snapshot_of (z2mBaseTopic @ ''/'' @ name) (snapshot dev) (JStr ms, dev)"
    using d(2) by (simp add: snapshot_of_def)
  then have ex: "list_ex (snapshot_of (z2mBaseTopic @ ''/'' @ name) (snapshot dev))
      (sonoffDevices (fst (processSonoffDevice e st name)))"
    unfolding d(1) by (simp add: list_ex_Map_set)
  have p: "complete_snapshot (fst (processSonoffDevice e st name))
      (Publish (z2mBaseTopic @ ''/'' @ name) (Value (JObj ?payload)))"
    unfolding sn using ex by simp
  show ?thesis
    unfolding eff' using p complete_snapshot_availability by simp
qed

lemma single_state_no_publish: "list_all (\<lambda>eff. \<not> is_publish eff) (fst (single_state dev cmd))"
  by (simp add: single_state_def split: sum.splits)

lemma relay_states_no_publish: "list_all (\<lambda>eff. \<not> is_publish eff) (fst (relay_states dev cmd is))"
  by (induction "is") (simp_all add: Let_def split: sum.splits)

lemma handleZ2MSetCommand_no_publish:
  "list_all (\<lambda>eff. \<not> is_publish eff) (snd (handleZ2MSetCommand e st name payload))"
  by (simp add: handleZ2MSetCommand_def set_command_body_def single_state_no_publish
      relay_states_no_publish Let_def split: option.splits)

lemma publishBridgeTopics_complete: "list_all (complete_snapshot st') (publishBridgeTopics st)"
  by (simp add: publishBridgeTopics_def publishMqtt_def is_marker_def)

lemma offline_sweep_complete:
  "list_all (complete_snapshot st')
     (concat (map (\<lambda>kv. publishMqtt (f kv @ ''/availability'') offline_payload) m))"
  by (induction m) (simp_all add: publishMqtt_def offline_payload_def is_marker_def ends_with_topic_cons)

lemma onStop_complete: "list_all (complete_snapshot st') (snd (onStop st))"
  by (simp add: onStop_def offline_sweep_complete)
     (simp add: publishMqtt_def offline_payload_def is_marker_def)

lemma handleSonoffPowerChange_publishes:
  assumes ok: "registry_ok (sonoffDevices st)"
    and found: "find_first (\<lambda>d. friendlyName d = name) (sonoffDevices st) = Some dev"
    and rng: "1 \<le> num" "num \<le> int (relayCount dev)"
    and ch: "js_nth (lastStates dev) (nat (num - 1)) \<noteq> JBool (is_true state)"
  shows "snd (handleSonoffPowerChange st name (Some num) state) =
      [Publish (z2mBaseTopic @ ''/'' @ name)
         (Value (JObj (snapshot
            (dev\<lparr>lastStates := (lastStates dev)[nat (num - 1) := JBool (is_true state)]\<rparr>)))),
       Publish (z2mBaseTopic @ ''/'' @ name @ ''/availability'')
         (availability_payload (lastAvailable dev \<noteq> JBool False))]"
proof -
  from find_first_split [OF found] obtain pre k post where
    sp: "sonoffDevices st = pre @ (k, dev) # post" "\<forall>kv \<in> set pre. friendlyName (snd kv) \<noteq> name"
      "friendlyName dev = name" by blast
  let ?new = "(lastStates dev)[nat (num - 1) := JBool (is_true state)]"
  let ?dev = "dev\<lparr>lastStates := ?new\<rparr>"
  have dok: "device_ok (k, dev)" using ok sp(1) by (simp add: registry_ok_entry)
  then have k: "k = mac dev" and fn: "friendly_name (z2mDevice dev) = name"
    and len: "length (lastStates dev) = relayCount dev" and one: "1 \<le> relayCount dev"
    using sp(3) by (simp_all add: device_ok_def)
  have i: "nat (num - 1) < length (lastStates dev)" using rng len by auto
  have js: "js_set (lastStates dev) (nat (num - 1)) (JBool (is_true state)) = ?new"
    using i by (rule js_set_in_range)
  have d: "distinct (map fst (pre @ (k, ?dev) # post))"
    using ok sp(1) by (simp add: registry_ok_def)
  have sn: "state_payload (relayCount dev) ?new = snapshot ?dev"
    using snapshot_state_payload [of ?dev] len one by simp
  show ?thesis
    unfolding handleSonoffPowerChange_changed [OF sp(2) sp(3) sp(1) rng ch] snd_conv js
    using publishDeviceState_entry [OF d] k fn sn by simp
qed

lemma handleSonoffAliveChange_publishes:
  assumes ok: "registry_ok (sonoffDevices st)"
    and found: "find_first (\<lambda>d. friendlyName d = name) (sonoffDevices st) = Some dev"
    and ch: "lastAvailable dev \<noteq> JBool (is_true alive)"
  shows "snd (handleSonoffAliveChange st name alive) =
      [Publish (z2mBaseTopic @ ''/'' @ name) (Value (JObj (snapshot dev))),
       Publish (z2mBaseTopic @ ''/'' @ name @ ''/availability'')
         (availability_payload (is_true alive))]"
proof -
  from find_first_split [OF found] obtain pre k post where
    sp: "sonoffDevices st = pre @ (k, dev) # post" "\<forall>kv \<in> set pre. friendlyName (snd kv) \<noteq> name"
      "friendlyName dev = name" by blast
  let ?dev = "dev\<lparr>lastAvailable := JBool (is_true alive)\<rparr>"
  have dok: "device_ok (k, dev)" using ok sp(1) by (simp add: registry_ok_entry)
  then have k: "k = mac dev" and fn: "friendly_name (z2mDevice dev) = name"
    and len: "length (lastStates dev) = relayCount dev" and one: "1 \<le> relayCount dev"
    using sp(3) by (simp_all add: device_ok_def)
  have d: "distinct (map fst (pre @ (k, ?dev) # post))"
    using ok sp(1) by (simp add: registry_ok_def)
  have sn: "state_payload (relayCount dev) (lastStates dev) = snapshot dev"
    using snapshot_state_payload [OF len one] .
  have sd: "snapshot ?dev = snapshot dev" by (simp add: snapshot_def)
  show ?thesis
    unfolding handleSonoffAliveChange_changed [OF sp(2) sp(3) sp(1) ch] snd_conv
    using publishDeviceState_entry [OF d] k fn sn by simp
qed

lemma processSonoffDevice_publishes:
  assumes m: "getStateValue e (sonoffAdapter @ ''.'' @ name @ ''.STATUS.StatusNET_Mac'') = JStr ms"
    and ne: "ms \<noteq> []" and lo: "1 \<le> parseGPIOs e name" and hi: "parseGPIOs e name \<le> 28"
    and ini: "initialized st"
    and al: "getStateValue e (sonoffAdapter @ ''.'' @ name @ ''.alive'') \<noteq> JNull"
  shows "\<exists>dev line.
     Map_get (sonoffDevices (fst (processSonoffDevice e st name))) (JStr ms) = Some dev \<and>
     snd (processSonoffDevice e st name) =
       [LogInfo line,
        Publish (z2mBaseTopic @ ''/'' @ name) (Value (JObj (snapshot dev))),
        Publish (z2mBaseTopic @ ''/'' @ name @ ''/availability'')
          (availability_payload
             (truthy (default_true (getStateValue e (sonoffAdapter @ ''.'' @ name @ ''.alive'')))))]"
proof -
  let ?n = "parseGPIOs e name"
  let ?pw = "\<lambda>i. getStateValue e (powerStateId name ?n i)"
  let ?alive = "getStateValue e (sonoffAdapter @ ''.'' @ name @ ''.alive'')"
  let ?payload = "state_payload ?n (map (\<lambda>i. if ?pw i \<noteq> JNull then ?pw i else JBool False) [1 ..< Suc ?n])"
  from processSonoffDevice_accepted [OF m ne lo hi, of st] obtain dev where
    d: "fst (processSonoffDevice e st name) = st\<lparr>sonoffDevices := Map_set (sonoffDevices st) (JStr ms) dev\<rparr>"
      "relayCount dev = ?n"
      "lastStates dev = map ?pw [1 ..< Suc ?n]"
    and eff: "\<exists>line. snd (processSonoffDevice e st name) =
       LogInfo line #
       (if initialized st \<and> ?alive \<noteq> JNull
        then [Publish (z2mBaseTopic @ ''/'' @ name) (Value (JObj ?payload)),
              Publish (z2mBaseTopic @ ''/'' @ name @ ''/availability'')
                (availability_payload (truthy (default_true ?alive)))]
        else [])"
    by blast
  from eff obtain line where
    eff': "snd (processSonoffDevice e st name) =
       LogInfo line #
       (if initialized st \<and> ?alive \<noteq> JNull
        then [Publish (z2mBaseTopic @ ''/'' @ name) (Value (JObj ?payload)),
              Publish (z2mBaseTopic @ ''/'' @ name @ ''/availability'')
                (availability_payload (truthy (default_true ?alive)))]
        else [])" ..
  have sn: "?payload = snapshot dev"
    using snapshot_initial_states [OF d(2) lo d(3)] .
  have g: "Map_get (sonoffDevices (fst (processSonoffDevice e st name))) (JStr ms) = Some dev"
    unfolding d(1) by (simp add: Map_get_Map_set_same)
  have "snd (processSonoffDevice e st name) =
       [LogInfo line,
        Publish (z2mBaseTopic @ ''/'' @ name) (Value (JObj (snapshot dev))),
        Publish (z2mBaseTopic @ ''/'' @ name @ ''/availability'')
          (availability_payload (truthy (default_true ?alive)))]"
    using eff' ini al unfolding sn by simp
  with g show ?thesis by blast
qed

text \<open>
  C3. In a well-formed registry of the Sonoff bridge, whatever the event: every object that
  is published is an availability marker or the complete snapshot of a registered device on
  that device's topic, that is \<^verbatim>\<open>linkquality: 255\<close> and the stored value of every endpoint
  after the event (\<^verbatim>\<open>state_l1\<close> .. \<^verbatim>\<open>state_lN\<close> for more than one relay), not only the
  endpoint that changed. A state event that changes the stored value of a relay publishes
  exactly the snapshot of the updated record and the availability; so do an availability
  event that changes the stored availability and, once the bridge is initialized, the
  discovery of a device whose \<^verbatim>\<open>alive\<close> state exists.
\<close>

theorem state_publish_is_complete_snapshot:
  assumes "registry_ok (sonoffDevices st)"
  shows "list_all (complete_snapshot (fst (step st ev))) (snd (step st ev)) \<and>
    (find_first (\<lambda>d. friendlyName d = name) (sonoffDevices st) = Some dev \<and>
     1 \<le> num \<and> num \<le> int (relayCount dev) \<and>
     js_nth (lastStates dev) (nat (num - 1)) \<noteq> JBool (is_true state) \<longrightarrow>
     snd (step st (PowerChange name (Some num) state)) =
       [Publish (z2mBaseTopic @ ''/'' @ name)
          (Value (JObj (snapshot
             (dev\<lparr>lastStates := (lastStates dev)[nat (num - 1) := JBool (is_true state)]\<rparr>)))),
        Publish (z2mBaseTopic @ ''/'' @ name @ ''/availability'')
          (availability_payload (lastAvailable dev \<noteq> JBool False))]) \<and>
    (find_first (\<lambda>d. friendlyName d = name) (sonoffDevices st) = Some dev \<and>
     lastAvailable dev \<noteq> JBool (is_true alive) \<longrightarrow>
     snd (step st (AliveChange name alive)) =
       [Publish (z2mBaseTopic @ ''/'' @ name) (Value (JObj (snapshot dev))),
        Publish (z2mBaseTopic @ ''/'' @ name @ ''/availability'')
          (availability_payload (is_true alive))]) \<and>
    (getStateValue e (sonoffAdapter @ ''.'' @ name @ ''.STATUS.StatusNET_Mac'') = JStr ms \<and>
     ms \<noteq> [] \<and> 1 \<le> parseGPIOs e name \<and> parseGPIOs e name \<le> 28 \<and> initialized st \<and>
     getStateValue e (sonoffAdapter @ ''.'' @ name @ ''.alive'') \<noteq> JNull \<longrightarrow>
     (\<exists>d line.
        Map_get (sonoffDevices (fst (step st (Discovery e name)))) (JStr ms) = Some d \<and>
        snd (step st (Discovery e name)) =
          [LogInfo line,
           Publish (z2mBaseTopic @ ''/'' @ name) (Value (JObj (snapshot d))),
           Publish (z2mBaseTopic @ ''/'' @ name @ ''/availability'')
             (availability_payload
                (truthy (default_true (getStateValue e (sonoffAdapter @ ''.'' @ name @ ''.alive'')))))]))"
proof (intro conjI impI)
  show "list_all (complete_snapshot (fst (step st ev))) (snd (step st ev))"
  proof (cases ev)
    case (Discovery e name)
    with assms show ?thesis by (simp add: processSonoffDevice_complete)
  next
    case (PowerChange name relayNum state)
    with assms show ?thesis by (simp add: handleSonoffPowerChange_complete)
  next
    case (AliveChange name alive)
    with assms show ?thesis by (simp add: handleSonoffAliveChange_complete)
  next
    case (SetCommand e name payload)
    then show ?thesis
      by (simp add: complete_snapshot_no_publish [OF handleZ2MSetCommand_no_publish])
  next
    case Started
    then show ?thesis by (simp add: publishBridgeTopics_complete)
  next
    case Refresh
    then show ?thesis by (simp add: publishBridgeTopics_complete)
  next
    case Stop
    then show ?thesis by (simp add: onStop_complete)
  qed
next
  assume "find_first (\<lambda>d. friendlyName d = name) (sonoffDevices st) = Some dev \<and>
     1 \<le> num \<and> num \<le> int (relayCount dev) \<and>
     js_nth (lastStates dev) (nat (num - 1)) \<noteq> JBool (is_true state)"
  then have h: "find_first (\<lambda>d. friendlyName d = name) (sonoffDevices st) = Some dev"
    "1 \<le> num" "num \<le> int (relayCount dev)"
    "js_nth (lastStates dev) (nat (num - 1)) \<noteq> JBool (is_true state)" by simp_all
  show "snd (step st (PowerChange name (Some num) state)) =
       [Publish (z2mBaseTopic @ ''/'' @ name)
          (Value (JObj (snapshot
             (dev\<lparr>lastStates := (lastStates dev)[nat (num - 1) := JBool (is_true state)]\<rparr>)))),
        Publish (z2mBaseTopic @ ''/'' @ name @ ''/availability'')
          (availability_payload (lastAvailable dev \<noteq> JBool False))]"
    unfolding step.simps by (rule handleSonoffPowerChange_publishes [OF assms h])
next
  assume "find_first (\<lambda>d. friendlyName d = name) (sonoffDevices st) = Some dev \<and>
     lastAvailable dev \<noteq> JBool (is_true alive)"
  then have h: "find_first (\<lambda>d. friendlyName d = name) (sonoffDevices st) = Some dev"
    "lastAvailable dev \<noteq> JBool (is_true alive)" by simp_all
  show "snd (step st (AliveChange name alive)) =
       [Publish (z2mBaseTopic @ ''/'' @ name) (Value (JObj (snapshot dev))),
        Publish (z2mBaseTopic @ ''/'' @ name @ ''/availability'')
          (availability_payload (is_true alive))]"
    unfolding step.simps by (rule handleSonoffAliveChange_publishes [OF assms h])
next
  assume "getStateValue e (sonoffAdapter @ ''.'' @ name @ ''.STATUS.StatusNET_Mac'') = JStr ms \<and>
     ms \<noteq> [] \<and> 1 \<le> parseGPIOs e name \<and> parseGPIOs e name \<le> 28 \<and> initialized st \<and>
     getStateValue e (sonoffAdapter @ ''.'' @ name @ ''.alive'') \<noteq> JNull"
  then have h: "getStateValue e (sonoffAdapter @ ''.'' @ name @ ''.STATUS.StatusNET_Mac'') = JStr ms"
    "ms \<noteq> []" "1 \<le> parseGPIOs e name" "parseGPIOs e name \<le> 28" "initialized st"
    "getStateValue e (sonoffAdapter @ ''.'' @ name @ ''.alive'') \<noteq> JNull" by simp_all
  show "\<exists>d line.
        Map_get (sonoffDevices (fst (step st (Discovery e name)))) (JStr ms) = Some d \<and>
        snd (step st (Discovery e name)) =
          [LogInfo line,
           Publish (z2mBaseTopic @ ''/'' @ name) (Value (JObj (snapshot d))),
           Publish (z2mBaseTopic @ ''/'' @ name @ ''/availability'')
             (availability_payload
                (truthy (default_true (getStateValue e (sonoffAdapter @ ''.'' @ name @ ''.alive'')))))]"
    unfolding step.simps by (rule processSonoffDevice_publishes [OF h])
qed

lemmas sonoff_eval = processSonoffDevice_def plug_host_def gpio_ids_def parseGPIOs_def relay_value_def
  sonoffAdapter_def z2mBaseTopic_def js_eval start_def createZ2MDeviceDefinition_def attach_def
  deviceInfo.defs device.defs read_power_def powerStateId_def Let_def
  handleSonoffPowerChange_def handleSonoffAliveChange_def find_first_def is_true_def
  publishDeviceState_def publishMqtt_def Map_get_def state_payload_def on_off_def
  availability_payload_def default_true_def

lemma dual_discovered:
  "processSonoffDevice (plug_host 2 [] []) start ''plug'' =
     (dual_bridge [JNull, JNull],
      [LogInfo ''Discovered Sonoff device: plug (60:01:94:CC:5E:44) - Model: null, Version: null, Relays: 2''])"
  by (simp add: sonoff_eval dual_bridge_def dual_device_def upt_rec numeral_2_eq_2)

lemma dual_first_event:
  "handleSonoffPowerChange (dual_bridge [JNull, JNull]) ''plug'' (Some 1) (JBool True) =
     (dual_bridge [JBool True, JNull],
      [Publish ''zigbee2mqtt/plug''
         (Value (JObj [(''linkquality'', JNum 255), (''state_l1'', JStr ''ON''),
                       (''state_l2'', JStr ''OFF'')])),
       Publish ''zigbee2mqtt/plug/availability'' (Value (JObj [(''state'', JStr ''online'')]))])"
  by (simp add: sonoff_eval dual_bridge_def dual_device_def upt_rec numeral_2_eq_2)

lemma dual_second_event:
  "handleSonoffPowerChange (dual_bridge [JBool True, JNull]) ''plug'' (Some 2) (JBool False) =
     (dual_bridge [JBool True, JBool False],
      [Publish ''zigbee2mqtt/plug''
         (Value (JObj [(''linkquality'', JNum 255), (''state_l1'', JStr ''ON''),
                       (''state_l2'', JStr ''OFF'')])),
       Publish ''zigbee2mqtt/plug/availability'' (Value (JObj [(''state'', JStr ''online'')]))])"
  by (simp add: sonoff_eval dual_bridge_def dual_device_def upt_rec numeral_2_eq_2)

lemma dual_bridge_ok: "length states = 2 \<Longrightarrow> registry_ok (sonoffDevices (dual_bridge states))"
  by (simp add: registry_ok_def device_ok_def dual_bridge_def dual_device_def)

lemma dual_alive_event:
  "handleSonoffAliveChange (dual_bridge [JBool True, JNull]) ''plug'' (JBool False) =
     (\<lparr>sonoffDevices = [(JStr ''60:01:94:CC:5E:44'',
          (dual_device [JBool True, JNull])\<lparr>lastAvailable := JBool False\<rparr>)], initialized = False\<rparr>,
      [Publish ''zigbee2mqtt/plug''
         (Value (JObj [(''linkquality'', JNum 255), (''state_l1'', JStr ''ON''),
                       (''state_l2'', JStr ''OFF'')])),
       Publish ''zigbee2mqtt/plug/availability'' (Value (JObj [(''state'', JStr ''offline'')]))])"
  by (simp add: sonoff_eval dual_bridge_def dual_device_def upt_rec numeral_2_eq_2)

lemma live_discovered:
  "processSonoffDevice live_host started ''plug'' =
     (\<lparr>sonoffDevices = [(JStr ''60:01:94:CC:5E:44'',
          (dual_device [JBool True, JNull])\<lparr>lastAvailable := JUndefined\<rparr>)], initialized = True\<rparr>,
      [LogInfo ''Discovered Sonoff device: plug (60:01:94:CC:5E:44) - Model: null, Version: null, Relays: 2'',
       Publish ''zigbee2mqtt/plug''
         (Value (JObj [(''linkquality'', JNum 255), (''state_l1'', JStr ''ON''),
                       (''state_l2'', JStr ''OFF'')])),
       Publish ''zigbee2mqtt/plug/availability'' (Value (JObj [(''state'', JStr ''online'')]))])"
  by (simp add: live_host_def started_def sonoff_eval dual_bridge_def dual_device_def upt_rec numeral_2_eq_2)

lemma find_dual:
  "find_first (\<lambda>d. friendlyName d = ''plug'') (sonoffDevices (dual_bridge states)) = Some (dual_device states)"
  by (simp add: find_first_def dual_bridge_def dual_device_def)

lemma live_host_facts:
  "getStateValue live_host (sonoffAdapter @ ''.'' @ ''plug'' @ ''.STATUS.StatusNET_Mac'') = JStr ''60:01:94:CC:5E:44''"
  "parseGPIOs live_host ''plug'' = 2"
  "getStateValue live_host (sonoffAdapter @ ''.'' @ ''plug'' @ ''.alive'') = JUndefined"
  by (simp_all add: live_host_def sonoff_eval upt_rec numeral_2_eq_2)

theorem state_publish_is_complete_snapshot_witness:
  "snd (run start [Discovery (plug_host 2 [] []) ''plug'',
                   PowerChange ''plug'' (Some 1) (JBool True),
                   PowerChange ''plug'' (Some 2) (JBool False)]) =
     [LogInfo ''Discovered Sonoff device: plug (60:01:94:CC:5E:44) - Model: null, Version: null, Relays: 2'',
      Publish ''zigbee2mqtt/plug''
         (Value (JObj [(''linkquality'', JNum 255), (''state_l1'', JStr ''ON''),
                       (''state_l2'', JStr ''OFF'')])),
      Publish ''zigbee2mqtt/plug/availability'' (Value (JObj [(''state'', JStr ''online'')])),
      Publish ''zigbee2mqtt/plug''
         (Value (JObj [(''linkquality'', JNum 255), (''state_l1'', JStr ''ON''),
                       (''state_l2'', JStr ''OFF'')])),
      Publish ''zigbee2mqtt/plug/availability'' (Value (JObj [(''state'', JStr ''online'')]))] \<and>
   list_all (complete_snapshot (dual_bridge [JBool True, JBool False]))
     [Publish ''zigbee2mqtt/plug''
         (Value (JObj [(''linkquality'', JNum 255), (''state_l1'', JStr ''ON''),
                       (''state_l2'', JStr ''OFF'')])),
      Publish ''zigbee2mqtt/plug/availability'' (Value (JObj [(''state'', JStr ''online'')]))] \<and>
   snd (step (dual_bridge [JBool True, JNull]) (PowerChange ''plug'' (Some 2) (JBool False))) =
     [Publish ''zigbee2mqtt/plug''
        (Value (JObj (snapshot (dual_device [JBool True, JBool False])))),
      Publish ''zigbee2mqtt/plug/availability'' (Value (JObj [(''state'', JStr ''online'')]))] \<and>
   snapshot (dual_device [JBool True, JBool False]) =
     [(''linkquality'', JNum 255), (''state_l1'', JStr ''ON''), (''state_l2'', JStr ''OFF'')] \<and>
   snd (step (dual_bridge [JBool True, JNull]) (AliveChange ''plug'' (JBool False))) =
     [Publish ''zigbee2mqtt/plug''
        (Value (JObj (snapshot (dual_device [JBool True, JNull])))),
      Publish ''zigbee2mqtt/plug/availability'' (Value (JObj [(''state'', JStr ''offline'')]))] \<and>
   (\<exists>d line.
      Map_get (sonoffDevices (fst (step started (Discovery live_host ''plug''))))
        (JStr ''60:01:94:CC:5E:44'') = Some d \<and>
      snd (step started (Discovery live_host ''plug'')) =
        [LogInfo line,
         Publish ''zigbee2mqtt/plug'' (Value (JObj (snapshot d))),
         Publish ''zigbee2mqtt/plug/availability'' (Value (JObj [(''state'', JStr ''online'')]))]) \<and>
   snd (step started (Discovery live_host ''plug'')) =
     [LogInfo ''Discovered Sonoff device: plug (60:01:94:CC:5E:44) - Model: null, Version: null, Relays: 2'',
      Publish ''zigbee2mqtt/plug''
         (Value (JObj [(''linkquality'', JNum 255), (''state_l1'', JStr ''ON''),
                       (''state_l2'', JStr ''OFF'')])),
      Publish ''zigbee2mqtt/plug/availability'' (Value (JObj [(''state'', JStr ''online'')]))]"
proof -
  have ok: "registry_ok (sonoffDevices (dual_bridge [JBool True, JNull]))"
    by (simp add: dual_bridge_ok)
  have ok0: "registry_ok (sonoffDevices started)"
    by (simp add: started_def registry_ok_def)
  have r: "snd (run start [Discovery (plug_host 2 [] []) ''plug'',
                   PowerChange ''plug'' (Some 1) (JBool True),
                   PowerChange ''plug'' (Some 2) (JBool False)]) =
     snd (processSonoffDevice (plug_host 2 [] []) start ''plug'') @
     snd (handleSonoffPowerChange (dual_bridge [JNull, JNull]) ''plug'' (Some 1) (JBool True)) @
     snd (handleSonoffPowerChange (dual_bridge [JBool True, JNull]) ''plug'' (Some 2) (JBool False))"
    by (simp add: Let_def dual_discovered dual_first_event)
  have ini: "initialized started" by (simp add: started_def)
  have sn: "snapshot (dual_device [JBool True, JBool False]) =
     [(''linkquality'', JNum 255), (''state_l1'', JStr ''ON''), (''state_l2'', JStr ''OFF'')]"
    by (simp add: snapshot_def dual_device_def on_off_def upt_rec numeral_2_eq_2 show_nat.simps digit_char_def)
  have upd: "(dual_device [JBool True, JNull])
       \<lparr>lastStates := (lastStates (dual_device [JBool True, JNull]))[nat (2 - 1) := JBool (is_true (JBool False))]\<rparr> =
     dual_device [JBool True, JBool False]"
    by (simp add: dual_device_def is_true_def)
  have h1: "js_nth (lastStates (dual_device [JBool True, JNull])) (nat (2 - 1)) \<noteq> JBool (is_true (JBool False))"
    "1 \<le> (2::int)" "2 \<le> int (relayCount (dual_device [JBool True, JNull]))"
    "lastAvailable (dual_device [JBool True, JNull]) \<noteq> JBool (is_true (JBool False))"
    by (simp_all add: dual_device_def js_nth_def is_true_def)
  have a: "availability_payload (lastAvailable (dual_device [JBool True, JNull]) \<noteq> JBool False) =
      (Value (JObj [(''state'', JStr ''online'')]) :: z2mDevice payload)"
    "availability_payload (is_true (JBool False)) =
      (Value (JObj [(''state'', JStr ''offline'')]) :: z2mDevice payload)"
    "availability_payload (truthy (default_true JUndefined)) =
      (Value (JObj [(''state'', JStr ''online'')]) :: z2mDevice payload)"
    by (simp_all add: availability_payload_def dual_device_def is_true_def default_true_def)
  note t1 = state_publish_is_complete_snapshot [OF ok, where ev = "PowerChange ''plug'' (Some 2) (JBool False)"
      and name = "''plug''" and dev = "dual_device [JBool True, JNull]" and num = 2
      and state = "JBool False" and alive = "JBool False"]
  note t2 = state_publish_is_complete_snapshot [OF ok0, where name = "''plug''" and e = live_host and ms = "''60:01:94:CC:5E:44''"]
  have c1: "list_all (complete_snapshot (dual_bridge [JBool True, JBool False]))
     [Publish ''zigbee2mqtt/plug''
         (Value (JObj [(''linkquality'', JNum 255), (''state_l1'', JStr ''ON''),
                       (''state_l2'', JStr ''OFF'')])),
      Publish ''zigbee2mqtt/plug/availability'' (Value (JObj [(''state'', JStr ''online'')]))]"
    using t1 by (simp add: dual_second_event)
  have c2: "snd (step (dual_bridge [JBool True, JNull]) (PowerChange ''plug'' (Some 2) (JBool False))) =
     [Publish ''zigbee2mqtt/plug''
        (Value (JObj (snapshot (dual_device [JBool True, JBool False])))),
      Publish ''zigbee2mqtt/plug/availability'' (Value (JObj [(''state'', JStr ''online'')]))]"
    using t1 h1 find_dual [of "[JBool True, JNull]"] unfolding upd a
    by (simp add: z2mBaseTopic_def)
  have c3: "snd (step (dual_bridge [JBool True, JNull]) (AliveChange ''plug'' (JBool False))) =
     [Publish ''zigbee2mqtt/plug''
        (Value (JObj (snapshot (dual_device [JBool True, JNull])))),
      Publish ''zigbee2mqtt/plug/availability'' (Value (JObj [(''state'', JStr ''offline'')]))]"
    using t1 h1 find_dual [of "[JBool True, JNull]"] unfolding upd a
    by (simp add: z2mBaseTopic_def)
  have c4: "\<exists>d line.
      Map_get (sonoffDevices (fst (step started (Discovery live_host ''plug''))))
        (JStr ''60:01:94:CC:5E:44'') = Some d \<and>
      snd (step started (Discovery live_host ''plug'')) =
        [LogInfo line,
         Publish ''zigbee2mqtt/plug'' (Value (JObj (snapshot d))),
         Publish ''zigbee2mqtt/plug/availability'' (Value (JObj [(''state'', JStr ''online'')]))]"
    using t2 ini live_host_facts unfolding a
    by (simp add: z2mBaseTopic_def a)
  have c5: "snd (step started (Discovery live_host ''plug'')) =
     [LogInfo ''Discovered Sonoff device: plug (60:01:94:CC:5E:44) - Model: null, Version: null, Relays: 2'',
      Publish ''zigbee2mqtt/plug''
         (Value (JObj [(''linkquality'', JNum 255), (''state_l1'', JStr ''ON''),
                       (''state_l2'', JStr ''OFF'')])),
      Publish ''zigbee2mqtt/plug/availability'' (Value (JObj [(''state'', JStr ''online'')]))]"
    by (simp add: live_discovered)
  show ?thesis
    unfolding r using c1 c2 sn c3 c4 c5
    by (simp add: dual_discovered dual_first_event dual_second_event)
qed


subsection \<open>Deduplication of state events\<close>


lemma state_topic_not_availability:
  "z2mBaseTopic @ ''/'' @ name @ ''/availability'' \<noteq> z2mBaseTopic @ ''/'' @ name"
  by simp








lemma tasmota_first_event:
  "handleTasmotaStatus tasmota_bridge1 (JStr ''600194CC5E44'') (JStr ''ON'') =
     (\<lparr>tasmotaDevices = [(JStr ''600194CC5E44'', tasmota_plug\<lparr>lastState := JBool True\<rparr>)],
       t_initialized = False\<rparr>,
      [Publish ''zigbee2mqtt/plug''
         (Value (JObj [(''state'', JStr ''ON''), (''linkquality'', JNum 255)])),
       Publish ''zigbee2mqtt/plug/availability'' (Value (JObj [(''state'', JStr ''online'')]))])"
  by (simp add: handleTasmotaStatus_def tasmota_bridge1_def tasmota_plug_def Map_get_def Let_def
      tasmota_publishDeviceState_def tasmota_publishMqtt_def z2mBaseTopic_def)




subsection \<open>Discovery of a known device\<close>

lemma processSonoffDevice_keys:
  "sonoffDevices (fst (processSonoffDevice e st name)) = sonoffDevices st \<or>
   (\<exists>dev. sonoffDevices (fst (processSonoffDevice e st name)) =
      Map_set (sonoffDevices st)
        (getStateValue e (sonoffAdapter @ ''.'' @ name @ ''.STATUS.StatusNET_Mac'')) dev)"
  using processSonoffDevice_cases [of e st name]
proof
  assume "fst (processSonoffDevice e st name) = st \<and>
    list_all (\<lambda>eff. \<not> is_publish eff) (snd (processSonoffDevice e st name))"
  then show ?thesis by simp
next
  assume "\<exists>ms. getStateValue e (sonoffAdapter @ ''.'' @ name @ ''.STATUS.StatusNET_Mac'') = JStr ms \<and>
         ms \<noteq> [] \<and> 1 \<le> parseGPIOs e name \<and> parseGPIOs e name \<le> 28"
  then obtain ms where ms: "getStateValue e (sonoffAdapter @ ''.'' @ name @ ''.STATUS.StatusNET_Mac'') = JStr ms"
    "ms \<noteq> []" "1 \<le> parseGPIOs e name" "parseGPIOs e name \<le> 28" by blast
  from processSonoffDevice_accepted [OF ms, of st] obtain dev where
    "fst (processSonoffDevice e st name) = st\<lparr>sonoffDevices := Map_set (sonoffDevices st) (JStr ms) dev\<rparr>"
    by blast
  then show ?thesis using ms(1) by auto
qed

lemma processSonoffDevice_distinct:
  "distinct (map fst (sonoffDevices st)) \<Longrightarrow>
   distinct (map fst (sonoffDevices (fst (processSonoffDevice e st name))))"
  using processSonoffDevice_keys [of e st name] by (auto simp: distinct_Map_set)

lemma processSonoffDevice_known_key:
  "getStateValue e (sonoffAdapter @ ''.'' @ name @ ''.STATUS.StatusNET_Mac'') \<in> fst ` set (sonoffDevices st) \<Longrightarrow>
   map fst (sonoffDevices (fst (processSonoffDevice e st name))) = map fst (sonoffDevices st)"
  using processSonoffDevice_keys [of e st name] Map_set_present by metis

lemma processSonoffDevice_stores_fresh_record:
  assumes "getStateValue e (sonoffAdapter @ ''.'' @ name @ ''.STATUS.StatusNET_Mac'') = JStr ms"
    and "ms \<noteq> []" and "1 \<le> parseGPIOs e name" and "parseGPIOs e name \<le> 28"
  shows "map_option (\<lambda>d. (friendlyName d, relayCount d, lastStates d, lastAvailable d))
           (Map_get (sonoffDevices (fst (processSonoffDevice e st name))) (JStr ms)) =
         Some (name, parseGPIOs e name,
               map (\<lambda>i. getStateValue e (powerStateId name (parseGPIOs e name) i))
                 [1 ..< Suc (parseGPIOs e name)],
               getStateValue e (sonoffAdapter @ ''.'' @ name @ ''.alive''))"
proof -
  from processSonoffDevice_accepted [OF assms, of st] obtain dev where
    "fst (processSonoffDevice e st name) = st\<lparr>sonoffDevices := Map_set (sonoffDevices st) (JStr ms) dev\<rparr>"
    "friendlyName dev = name" "relayCount dev = parseGPIOs e name"
    "lastStates dev = map (\<lambda>i. getStateValue e (powerStateId name (parseGPIOs e name) i))
         [1 ..< Suc (parseGPIOs e name)]"
    "lastAvailable dev = getStateValue e (sonoffAdapter @ ''.'' @ name @ ''.alive'')"
    by blast
  then show ?thesis by (simp add: Map_get_Map_set_same del: upt_Suc)
qed

lemma tasmota_definition_mac:
  "tasmota_createZ2MDeviceDefinition config = Inr z \<Longrightarrow> get_prop config ''mac'' = Inr m \<Longrightarrow>
   \<exists>s. m = JStr s"
  by (cases m) (auto simp: tasmota_createZ2MDeviceDefinition_def and_then_def tasmota_macToIeee_def
      split: sum.splits)

lemma Map_has_JStr: "Map_has devices (JStr s) = (JStr s \<in> fst ` set devices)"
  by simp

lemma discovery_body_keys:
  assumes "discovery_body st config = Inr (st', effs)"
  shows "st' = st \<or>
    (\<exists>s dev. JStr s \<notin> fst ` set (tasmotaDevices st) \<and>
       st' = st\<lparr>tasmotaDevices := Map_set (tasmotaDevices st) (JStr s) dev\<rparr>)"
proof (cases "get_prop config ''mac''")
  case (Inl err)
  with assms show ?thesis by (simp add: discovery_body_def and_then_def)
next
  case (Inr m)
  note m = this
  show ?thesis
  proof (cases "tasmota_createZ2MDeviceDefinition config")
    case (Inl err)
    with assms m show ?thesis
      by (auto simp: discovery_body_def and_then_def split: sum.splits if_splits)
  next
    case (Inr z)
    from tasmota_definition_mac [OF Inr m] obtain s where s: "m = JStr s" by blast
    from assms m Inr s show ?thesis
      by (auto simp: discovery_body_def and_then_def Let_def split: sum.splits if_splits)
  qed
qed

lemma handleTasmotaDiscovery_keys:
  "fst (handleTasmotaDiscovery e st stateId) = st \<or>
    (\<exists>s dev. JStr s \<notin> fst ` set (tasmotaDevices st) \<and>
       fst (handleTasmotaDiscovery e st stateId) =
         st\<lparr>tasmotaDevices := Map_set (tasmotaDevices st) (JStr s) dev\<rparr>)"
proof (cases "getState e stateId")
  case None
  then show ?thesis by (simp add: handleTasmotaDiscovery_def)
next
  case (Some v)
  note v = this
  show ?thesis
  proof (cases "JSON_parse e (to_String v)")
    case None
    with v show ?thesis by (simp add: handleTasmotaDiscovery_def)
  next
    case (Some config)
    note config = this
    show ?thesis
    proof (cases "discovery_body st config")
      case (Inl err)
      with v config show ?thesis by (simp add: handleTasmotaDiscovery_def)
    next
      case (Inr r)
      obtain st' effs where r: "r = (st', effs)" by (cases r)
      from discovery_body_keys [OF Inr [unfolded r]] v config Inr r
      show ?thesis by (auto simp: handleTasmotaDiscovery_def)
    qed
  qed
qed

lemma Map_get_key: "Map_get m k = Some v \<Longrightarrow> k \<in> fst ` set m"
  by (auto simp: Map_get_def dest: map_of_SomeD intro: image_eqI [where x = "(k, v)"])

lemma handleTasmotaDiscovery_keeps_entries:
  assumes "Map_get (tasmotaDevices st) k = Some dev"
  shows "Map_get (tasmotaDevices (fst (handleTasmotaDiscovery e st stateId))) k = Some dev"
  using handleTasmotaDiscovery_keys [of e st stateId]
proof
  assume "fst (handleTasmotaDiscovery e st stateId) = st"
  with assms show ?thesis by simp
next
  assume "\<exists>s dev. JStr s \<notin> fst ` set (tasmotaDevices st) \<and>
       fst (handleTasmotaDiscovery e st stateId) =
         st\<lparr>tasmotaDevices := Map_set (tasmotaDevices st) (JStr s) dev\<rparr>"
  then obtain s dev' where h: "JStr s \<notin> fst ` set (tasmotaDevices st)"
    "fst (handleTasmotaDiscovery e st stateId) =
         st\<lparr>tasmotaDevices := Map_set (tasmotaDevices st) (JStr s) dev'\<rparr>" by blast
  from Map_get_key [OF assms] h(1) have "k \<noteq> JStr s" by blast
  with assms h(2) show ?thesis by (simp add: Map_get_Map_set_other)
qed

lemma handleTasmotaDiscovery_distinct:
  "distinct (map fst (tasmotaDevices st)) \<Longrightarrow>
   distinct (map fst (tasmotaDevices (fst (handleTasmotaDiscovery e st stateId))))"
  using handleTasmotaDiscovery_keys [of e st stateId] by (auto simp: distinct_Map_set)

lemma handleTasmotaDiscovery_known:
  assumes "getState e stateId = Some v" and "truthy v"
    and "JSON_parse e (to_String v) = Some config"
    and "get_prop config ''mac'' = Inr m" and "truthy m"
    and "and_then (get_prop config ''rl'') rl_some = Inr r"
    and "Map_has (tasmotaDevices st) m"
  shows "handleTasmotaDiscovery e st stateId = (st, [])"
  using assms
  by (auto simp: handleTasmotaDiscovery_def discovery_body_def and_then_def split: sum.splits)


text \<open>
  C1, as amended. Both bridges keep the keys of the registry distinct, so a nativeId has
  at most one entry, and processing a discovery for a known nativeId adds none. In the
  Tasmota bridge such a discovery is a no-op (registry unchanged, nothing emitted), and
  no discovery ever changes an entry that exists: the first discovery wins. In the Sonoff
  bridge an accepted device folder overwrites the entry under its MAC with the record
  derived from that folder: the last accepted discovery wins.
\<close>

theorem rediscovery_keeps_one_entry:
  "(getState e stateId = Some v \<longrightarrow> truthy v \<longrightarrow> JSON_parse e (to_String v) = Some config \<longrightarrow>
    get_prop config ''mac'' = Inr m \<longrightarrow> truthy m \<longrightarrow>
    and_then (get_prop config ''rl'') rl_some = Inr r \<longrightarrow> Map_has (tasmotaDevices tst) m \<longrightarrow>
      handleTasmotaDiscovery e tst stateId = (tst, [])) \<and>
   (Map_get (tasmotaDevices tst) k = Some tdev \<longrightarrow>
      Map_get (tasmotaDevices (fst (handleTasmotaDiscovery e tst stateId))) k = Some tdev) \<and>
   (distinct (map fst (tasmotaDevices tst)) \<longrightarrow>
      distinct (map fst (tasmotaDevices (fst (handleTasmotaDiscovery e tst stateId))))) \<and>
   (distinct (map fst (sonoffDevices st)) \<longrightarrow>
      distinct (map fst (sonoffDevices (fst (processSonoffDevice e st name))))) \<and>
   (getStateValue e (sonoffAdapter @ ''.'' @ name @ ''.STATUS.StatusNET_Mac'')
      \<in> fst ` set (sonoffDevices st) \<longrightarrow>
      map fst (sonoffDevices (fst (processSonoffDevice e st name))) = map fst (sonoffDevices st)) \<and>
   (getStateValue e (sonoffAdapter @ ''.'' @ name @ ''.STATUS.StatusNET_Mac'') = JStr ms \<longrightarrow>
    ms \<noteq> [] \<longrightarrow> 1 \<le> parseGPIOs e name \<longrightarrow> parseGPIOs e name \<le> 28 \<longrightarrow>
      map_option (\<lambda>d. (friendlyName d, relayCount d, lastStates d, lastAvailable d))
        (Map_get (sonoffDevices (fst (processSonoffDevice e st name))) (JStr ms)) =
      Some (name, parseGPIOs e name,
            map (\<lambda>i. getStateValue e (powerStateId name (parseGPIOs e name) i))
              [1 ..< Suc (parseGPIOs e name)],
            getStateValue e (sonoffAdapter @ ''.'' @ name @ ''.alive'')))"
proof -
  have a: "getState e stateId = Some v \<longrightarrow> truthy v \<longrightarrow> JSON_parse e (to_String v) = Some config \<longrightarrow>
    get_prop config ''mac'' = Inr m \<longrightarrow> truthy m \<longrightarrow>
    and_then (get_prop config ''rl'') rl_some = Inr r \<longrightarrow> Map_has (tasmotaDevices tst) m \<longrightarrow>
      handleTasmotaDiscovery e tst stateId = (tst, [])"
    using handleTasmotaDiscovery_known by blast
  have b: "Map_get (tasmotaDevices tst) k = Some tdev \<longrightarrow>
      Map_get (tasmotaDevices (fst (handleTasmotaDiscovery e tst stateId))) k = Some tdev"
    using handleTasmotaDiscovery_keeps_entries by blast
  have c: "distinct (map fst (tasmotaDevices tst)) \<longrightarrow>
      distinct (map fst (tasmotaDevices (fst (handleTasmotaDiscovery e tst stateId))))"
    using handleTasmotaDiscovery_distinct by blast
  have d: "distinct (map fst (sonoffDevices st)) \<longrightarrow>
      distinct (map fst (sonoffDevices (fst (processSonoffDevice e st name))))"
    using processSonoffDevice_distinct by blast
  have f: "getStateValue e (sonoffAdapter @ ''.'' @ name @ ''.STATUS.StatusNET_Mac'')
      \<in> fst ` set (sonoffDevices st) \<longrightarrow>
      map fst (sonoffDevices (fst (processSonoffDevice e st name))) = map fst (sonoffDevices st)"
    using processSonoffDevice_known_key by blast
  have g: "getStateValue e (sonoffAdapter @ ''.'' @ name @ ''.STATUS.StatusNET_Mac'') = JStr ms \<longrightarrow>
    ms \<noteq> [] \<longrightarrow> 1 \<le> parseGPIOs e name \<longrightarrow> parseGPIOs e name \<le> 28 \<longrightarrow>
      map_option (\<lambda>d. (friendlyName d, relayCount d, lastStates d, lastAvailable d))
        (Map_get (sonoffDevices (fst (processSonoffDevice e st name))) (JStr ms)) =
      Some (name, parseGPIOs e name,
            map (\<lambda>i. getStateValue e (powerStateId name (parseGPIOs e name) i))
              [1 ..< Suc (parseGPIOs e name)],
            getStateValue e (sonoffAdapter @ ''.'' @ name @ ''.alive''))"
    using processSonoffDevice_stores_fresh_record by blast
  from a b c d f g show ?thesis by (intro conjI)
qed

lemmas twin_eval = twin_host_def getStateValue_def sonoffAdapter_def parseGPIOs_def
  relay_value_def powerStateId_def

lemma twin_plug_discovered:
  "processSonoffDevice twin_host start ''plug'' =
     (plug_bridge JNull,
      [LogInfo ''Discovered Sonoff device: plug (60:01:94:CC:5E:44) - Model: null, Version: null, Relays: 1''])"
  by (simp add: processSonoffDevice_def twin_host_def parseGPIOs_def relay_value_def
      sonoffAdapter_def js_eval start_def createZ2MDeviceDefinition_def attach_def
      deviceInfo.defs device.defs read_power_def powerStateId_def plug_bridge_def plug_device_def
      Let_def)

theorem rediscovery_keeps_one_entry_witness:
  "handleTasmotaDiscovery tasmota_host tasmota_bridge1 discovery_id = (tasmota_bridge1, []) \<and>
   Map_get (tasmotaDevices (fst (handleTasmotaDiscovery tasmota_host tasmota_bridge1 discovery_id)))
     (JStr ''600194CC5E44'') = Some tasmota_plug \<and>
   map fst (sonoffDevices (fst (processSonoffDevice twin_host (plug_bridge JNull) ''lamp''))) =
     [JStr ''60:01:94:CC:5E:44''] \<and>
   map_option (\<lambda>d. (friendlyName d, relayCount d, lastStates d, lastAvailable d))
     (Map_get (sonoffDevices (fst (processSonoffDevice twin_host (plug_bridge JNull) ''lamp'')))
        (JStr ''60:01:94:CC:5E:44'')) = Some (''lamp'', 1, [JNull], JNull) \<and>
   distinct (map fst (tasmotaDevices (fst (handleTasmotaDiscovery tasmota_host tasmota_bridge1 discovery_id)))) \<and>
   distinct (map fst (sonoffDevices (fst (processSonoffDevice twin_host (plug_bridge JNull) ''lamp''))))"
proof -
  have dt: "distinct (map fst (tasmotaDevices tasmota_bridge1))"
    by (simp add: tasmota_bridge1_def)
  have ds: "distinct (map fst (sonoffDevices (plug_bridge JNull)))"
    by (simp add: plug_bridge_def)
  have g: "getState tasmota_host discovery_id = Some (JStr discovery_text)"
    by (simp add: tasmota_host_def)
  have t: "truthy (JStr discovery_text)" by (simp add: discovery_text_def)
  have p: "JSON_parse tasmota_host (to_String (JStr discovery_text)) = Some discovery_config"
    by (simp add: tasmota_host_def)
  have m: "get_prop discovery_config ''mac'' = Inr (JStr ''600194CC5E44'')"
    by (simp add: discovery_config_def)
  have tm: "truthy (JStr ''600194CC5E44'')" by simp
  have rl: "and_then (get_prop discovery_config ''rl'') rl_some = Inr (JBool True)"
    by (simp add: discovery_config_def and_then_def)
  have h: "Map_has (tasmotaDevices tasmota_bridge1) (JStr ''600194CC5E44'')"
    by (simp add: tasmota_bridge1_def)
  have k: "Map_get (tasmotaDevices tasmota_bridge1) (JStr ''600194CC5E44'') = Some tasmota_plug"
    by (simp add: tasmota_bridge1_def Map_get_def)
  have s: "getStateValue twin_host (sonoffAdapter @ ''.'' @ ''lamp'' @ ''.STATUS.StatusNET_Mac'')
      \<in> fst ` set (sonoffDevices (plug_bridge JNull))"
    by (simp add: twin_eval plug_bridge_def)
  show ?thesis
    using rediscovery_keeps_one_entry
      [of tasmota_host discovery_id "JStr discovery_text" discovery_config "JStr ''600194CC5E44''"
          "JBool True" tasmota_bridge1 "JStr ''600194CC5E44''" tasmota_plug start "''plug''" "''x''"]
      rediscovery_keeps_one_entry
      [of twin_host discovery_id "JStr discovery_text" discovery_config "JStr ''600194CC5E44''"
          "JBool True" tasmota_bridge1 "JStr ''600194CC5E44''" tasmota_plug "plug_bridge JNull"
          "''lamp''" "''60:01:94:CC:5E:44''"]
      g t p m tm rl h k s dt ds
    by (simp add: twin_eval plug_bridge_def)
qed

text \<open>
  Two folders report one MAC address. The scan processes \<^verbatim>\<open>plug\<close>, then \<^verbatim>\<open>lamp\<close>: the
  entry under the MAC is the record of \<^verbatim>\<open>plug\<close> after the first and the record of
  \<^verbatim>\<open>lamp\<close> after the second.
\<close>

theorem rediscovery_is_noop_counterexample:
  "map_option friendlyName
     (Map_get (sonoffDevices (fst (run start [Discovery twin_host ''plug''])))
        (JStr ''60:01:94:CC:5E:44'')) = Some ''plug'' \<and>
   map_option friendlyName
     (Map_get (sonoffDevices (fst (run start [Discovery twin_host ''plug'', Discovery twin_host ''lamp''])))
        (JStr ''60:01:94:CC:5E:44'')) = Some ''lamp''"
proof -
  have a: "map_option (\<lambda>d. (friendlyName d, relayCount d, lastStates d, lastAvailable d))
     (Map_get (sonoffDevices (fst (processSonoffDevice twin_host (plug_bridge JNull) ''lamp'')))
        (JStr ''60:01:94:CC:5E:44'')) = Some (''lamp'', 1, [JNull], JNull)"
    using processSonoffDevice_stores_fresh_record
      [of twin_host "''lamp''" "''60:01:94:CC:5E:44''" "plug_bridge JNull"]
    by (simp add: twin_eval)
  have b: "map_option friendlyName
     (Map_get (sonoffDevices (fst (processSonoffDevice twin_host (plug_bridge JNull) ''lamp'')))
        (JStr ''60:01:94:CC:5E:44'')) = Some ''lamp''"
    using a by (cases "Map_get (sonoffDevices (fst (processSonoffDevice twin_host (plug_bridge JNull) ''lamp'')))
        (JStr ''60:01:94:CC:5E:44'')") simp_all
  show ?thesis
    using b by (simp add: Let_def twin_plug_discovered)
       (simp add: plug_bridge_def plug_device_def Map_get_def)
qed


subsection \<open>Toggle and the other set commands\<close>

lemma string_or_absent_cases:
  assumes "string_or_absent kvs k"
  shows "(k \<notin> fst ` set kvs \<and> map_of kvs k = None) \<or> (\<exists>s. map_of kvs k = Some (JStr s))"
proof (cases "map_of kvs k")
  case None
  then show ?thesis by (simp add: map_of_eq_None_iff)
next
  case (Some v)
  with assms have "is_string v" by (simp add: string_or_absent_def)
  then obtain s where "v = JStr s" by (cases v) simp_all
  with Some show ?thesis by simp
qed

lemma resolve_state_toggled: "resolve_state dev (i - 1) (map upper_char s) = toggled dev i s"
  by (simp add: resolve_state_def toggled_def)

lemma relay_states_step:
  assumes "string_or_absent kvs (''state_l'' @ show_nat i)"
  shows "relay_states dev (JObj kvs) (i # rest) =
     (relay_command dev kvs i @ fst (relay_states dev (JObj kvs) rest),
      snd (relay_states dev (JObj kvs) rest))"
  using string_or_absent_cases [OF assms]
proof
  assume "''state_l'' @ show_nat i \<notin> fst ` set kvs \<and> map_of kvs (''state_l'' @ show_nat i) = None"
  then show ?thesis by (simp add: relay_command_def)
next
  assume "\<exists>s. map_of kvs (''state_l'' @ show_nat i) = Some (JStr s)"
  then obtain s where s: "map_of kvs (''state_l'' @ show_nat i) = Some (JStr s)" ..
  show ?thesis
    using s has_key_map_of [OF s] get_prop_map_of [OF s] resolve_state_toggled [of dev i s]
    by (simp add: relay_command_def Let_def del: has_key.simps get_prop.simps)
qed

lemma relay_states_commands:
  assumes "list_all (\<lambda>i. string_or_absent kvs (''state_l'' @ show_nat i)) is"
  shows "relay_states dev (JObj kvs) is = (concat (map (relay_command dev kvs) is), None)"
  using assms
proof (induction "is")
  case Nil
  then show ?case by simp
next
  case (Cons i rest)
  then have a: "string_or_absent kvs (''state_l'' @ show_nat i)"
    and r: "relay_states dev (JObj kvs) rest = (concat (map (relay_command dev kvs) rest), None)"
    by simp_all
  show ?case unfolding relay_states_step [OF a] r by simp
qed

lemma single_state_command:
  assumes "relayCount dev \<noteq> 1 \<or> string_or_absent kvs ''state''"
  shows "single_state dev (JObj kvs) = (state_command dev kvs, None)"
proof (cases "relayCount dev = 1")
  case False
  then show ?thesis by (simp add: single_state_def state_command_def)
next
  case True
  with assms have "string_or_absent kvs ''state''" by simp
  from string_or_absent_cases [OF this] show ?thesis
  proof
    assume "''state'' \<notin> fst ` set kvs \<and> map_of kvs ''state'' = None"
    then show ?thesis using True by (simp add: single_state_def state_command_def)
  next
    assume "\<exists>s. map_of kvs ''state'' = Some (JStr s)"
    then obtain s where s: "map_of kvs ''state'' = Some (JStr s)" ..
    show ?thesis
      using True s has_key_map_of [OF s] get_prop_map_of [OF s]
        resolve_state_toggled [of dev 1 s]
      by (simp add: single_state_def state_command_def del: has_key.simps get_prop.simps)
  qed
qed

lemma handleZ2MSetCommand_commands:
  assumes "find_first (\<lambda>d. friendly_name (z2mDevice d) = name) (sonoffDevices st) = Some dev"
    and "JSON_parse e (to_String payload) = Some (JObj kvs)"
    and "string_valued dev kvs"
  shows "handleZ2MSetCommand e st name payload =
     (st, state_command dev kvs @ concat (map (relay_command dev kvs) [1 ..< Suc (relayCount dev)]))"
proof -
  have a: "relayCount dev \<noteq> 1 \<or> string_or_absent kvs ''state''"
    and b: "list_all (\<lambda>i. string_or_absent kvs (''state_l'' @ show_nat i)) [1 ..< Suc (relayCount dev)]"
    using assms(3) by (simp_all add: string_valued_def)
  show ?thesis
    using assms(1,2) relay_states_commands [OF b, of dev]
    by (simp add: handleZ2MSetCommand_def set_command_body_def single_state_command [OF a]
        Let_def del: relay_states.simps upt_Suc)
qed

lemma concat_map_only:
  assumes "i \<in> set xs" "distinct xs" "\<And>j. j \<in> set xs \<Longrightarrow> j \<noteq> i \<Longrightarrow> f j = []"
  shows "concat (map f xs) = f i"
  using assms
proof (induction xs)
  case Nil
  then show ?case by simp
next
  case (Cons x xs)
  show ?case
  proof (cases "x = i")
    case True
    then have "i \<notin> set xs" using Cons.prems(2) by simp
    then have "\<And>j. j \<in> set xs \<Longrightarrow> f j = []" using Cons.prems(3) by auto
    then have "concat (map f xs) = []" by (induction xs) simp_all
    with True show ?thesis by simp
  next
    case False
    then have "f x = []" using Cons.prems(3) by simp
    moreover have "concat (map f xs) = f i"
      using Cons.prems False by (intro Cons.IH) auto
    ultimately show ?thesis by simp
  qed
qed

lemma relay_command_toggle:
  assumes "map_of kvs (''state_l'' @ show_nat i) = Some (JStr s)" "map upper_char s = ''TOGGLE''"
  shows "relay_command dev kvs i =
     [SetState (powerStateId (friendlyName dev) (relayCount dev) i)
        (JBool (\<not> truthy (js_nth (lastStates dev) (i - 1))))]"
  using assms by (simp add: relay_command_def toggled_def)

lemma relay_command_other_key:
  assumes "j \<noteq> i"
  shows "relay_command dev [(''state_l'' @ show_nat i, v)] j = []"
proof -
  have "show_nat j \<noteq> show_nat i" using assms show_nat_inj by blast
  then show ?thesis by (simp add: relay_command_def)
qed

lemma string_valued_single:
  assumes "relayCount dev \<noteq> 1"
  shows "string_valued dev [(''state_l'' @ show_nat i, JStr s)]"
proof -
  have "string_or_absent [(''state_l'' @ show_nat i, JStr s)] k" for k
    by (simp add: string_or_absent_def)
  then show ?thesis using assms by (simp add: string_valued_def list_all_iff del: upt_Suc)
qed


text \<open>
  C4. A set command for a known device of the Sonoff bridge whose payload parses to an
  object. On a single-relay device a \<^verbatim>\<open>state\<close> of \<^verbatim>\<open>TOGGLE\<close> in any letter case (with no
  \<^verbatim>\<open>state_l1\<close>) gives exactly one write to the device's \<^verbatim>\<open>POWER\<close> state, of the negation
  of the stored \<^verbatim>\<open>lastStates[0]\<close>: \<^verbatim>\<open>false\<close> (OFF) when it holds \<^verbatim>\<open>true\<close> and \<^verbatim>\<open>true\<close>
  (ON) when it is unknown. Whatever the command, every value written to the native side is
  a boolean. In general, when the values of the keys that are read are strings, the writes
  are exactly the one for \<^verbatim>\<open>state\<close> (single relay only) followed by one for each present key
  \<^verbatim>\<open>state_l<i>\<close>, \<open>i\<close> from 1 to the relay count, in that order, and the write for a
  \<^verbatim>\<open>TOGGLE\<close> of relay \<open>i\<close> carries the negation of the stored \<^verbatim>\<open>lastStates[i - 1]\<close>; on a
  device with several relays the payload with the single key \<^verbatim>\<open>state_l<i>\<close> of \<^verbatim>\<open>TOGGLE\<close>
  gives exactly one write, to \<^verbatim>\<open>POWER<i>\<close>.
\<close>

theorem toggle_resolved_by_translator:
  assumes "find_first (\<lambda>d. friendly_name (z2mDevice d) = name) (sonoffDevices st) = Some dev"
    and "JSON_parse e (to_String payload) = Some (JObj kvs)"
  shows
   "(relayCount dev = 1 \<and> map_of kvs ''state'' = Some (JStr s) \<and> map upper_char s = ''TOGGLE'' \<and>
     ''state_l1'' \<notin> fst ` set kvs \<longrightarrow>
     handleZ2MSetCommand e st name payload =
       (st, [SetState (sonoffAdapter @ ''.'' @ friendlyName dev @ ''.POWER'')
               (JBool (\<not> truthy (js_nth (lastStates dev) 0)))])) \<and>
    list_all concrete_command (snd (handleZ2MSetCommand e' st' name' payload')) \<and>
    (string_valued dev kvs \<longrightarrow>
     handleZ2MSetCommand e st name payload =
       (st, state_command dev kvs @
            concat (map (relay_command dev kvs) [1 ..< Suc (relayCount dev)]))) \<and>
    (string_valued dev kvs \<and> 1 \<le> i \<and> i \<le> relayCount dev \<and>
     map_of kvs (''state_l'' @ show_nat i) = Some (JStr s) \<and> map upper_char s = ''TOGGLE'' \<longrightarrow>
     SetState (powerStateId (friendlyName dev) (relayCount dev) i)
       (JBool (\<not> truthy (js_nth (lastStates dev) (i - 1))))
       \<in> set (snd (handleZ2MSetCommand e st name payload))) \<and>
    (1 < relayCount dev \<and> 1 \<le> i \<and> i \<le> relayCount dev \<and>
     kvs = [(''state_l'' @ show_nat i, JStr s)] \<and> map upper_char s = ''TOGGLE'' \<longrightarrow>
     handleZ2MSetCommand e st name payload =
       (st, [SetState (sonoffAdapter @ ''.'' @ friendlyName dev @ ''.POWER'' @ show_nat i)
               (JBool (\<not> truthy (js_nth (lastStates dev) (i - 1))))]))"
proof (intro conjI impI)
  assume "relayCount dev = 1 \<and> map_of kvs ''state'' = Some (JStr s) \<and> map upper_char s = ''TOGGLE'' \<and>
     ''state_l1'' \<notin> fst ` set kvs"
  with assms show "handleZ2MSetCommand e st name payload =
       (st, [SetState (sonoffAdapter @ ''.'' @ friendlyName dev @ ''.POWER'')
               (JBool (\<not> truthy (js_nth (lastStates dev) 0)))])"
    by (simp add: handleZ2MSetCommand_def set_command_body_def single_state_toggle
      relay_states_one_absent resolve_state_def Let_def del: relay_states.simps)
next
  show "list_all concrete_command (snd (handleZ2MSetCommand e' st' name' payload'))"
    by (rule handleZ2MSetCommand_concrete)
next
  assume "string_valued dev kvs"
  then show "handleZ2MSetCommand e st name payload =
       (st, state_command dev kvs @
            concat (map (relay_command dev kvs) [1 ..< Suc (relayCount dev)]))"
    by (rule handleZ2MSetCommand_commands [OF assms])
next
  assume h: "string_valued dev kvs \<and> 1 \<le> i \<and> i \<le> relayCount dev \<and>
     map_of kvs (''state_l'' @ show_nat i) = Some (JStr s) \<and> map upper_char s = ''TOGGLE''"
  then have sv: "string_valued dev kvs"
    and k: "map_of kvs (''state_l'' @ show_nat i) = Some (JStr s)" and t: "map upper_char s = ''TOGGLE''"
    by simp_all
  have i: "i \<in> set [1 ..< Suc (relayCount dev)]" using h by auto
  have "SetState (powerStateId (friendlyName dev) (relayCount dev) i)
       (JBool (\<not> truthy (js_nth (lastStates dev) (i - 1)))) \<in> set (relay_command dev kvs i)"
    unfolding relay_command_toggle [OF k t] by simp
  with i have m: "SetState (powerStateId (friendlyName dev) (relayCount dev) i)
       (JBool (\<not> truthy (js_nth (lastStates dev) (i - 1))))
       \<in> set (concat (map (relay_command dev kvs) [1 ..< Suc (relayCount dev)]))"
    unfolding set_concat by (intro UN_I [of "relay_command dev kvs i"]) (simp_all del: upt_Suc)
  have "snd (handleZ2MSetCommand e st name payload) =
      state_command dev kvs @ concat (map (relay_command dev kvs) [1 ..< Suc (relayCount dev)])"
    by (simp only: handleZ2MSetCommand_commands [OF assms sv] snd_conv)
  then show "SetState (powerStateId (friendlyName dev) (relayCount dev) i)
       (JBool (\<not> truthy (js_nth (lastStates dev) (i - 1))))
       \<in> set (snd (handleZ2MSetCommand e st name payload))"
    using m by (simp only: set_append Un_iff simp_thms)
next
  assume h: "1 < relayCount dev \<and> 1 \<le> i \<and> i \<le> relayCount dev \<and>
     kvs = [(''state_l'' @ show_nat i, JStr s)] \<and> map upper_char s = ''TOGGLE''"
  then have rc: "relayCount dev \<noteq> 1"
    and kvs: "kvs = [(''state_l'' @ show_nat i, JStr s)]" and t: "map upper_char s = ''TOGGLE''"
    by simp_all
  have i: "i \<in> set [1 ..< Suc (relayCount dev)]" using h by auto
  have sv: "string_valued dev kvs" unfolding kvs using rc by (rule string_valued_single)
  have k: "map_of kvs (''state_l'' @ show_nat i) = Some (JStr s)" unfolding kvs by simp
  have c: "concat (map (relay_command dev kvs) [1 ..< Suc (relayCount dev)]) = relay_command dev kvs i"
  proof (rule concat_map_only [OF i])
    show "distinct [1 ..< Suc (relayCount dev)]" by (rule distinct_upt)
  next
    fix j assume "j \<noteq> i"
    then show "relay_command dev kvs j = []" unfolding kvs by (rule relay_command_other_key)
  qed
  have s0: "state_command dev kvs = []" using rc by (simp add: state_command_def)
  have p: "powerStateId (friendlyName dev) (relayCount dev) i =
      sonoffAdapter @ ''.'' @ friendlyName dev @ ''.POWER'' @ show_nat i"
    using rc by (simp add: powerStateId_def)
  show "handleZ2MSetCommand e st name payload =
       (st, [SetState (sonoffAdapter @ ''.'' @ friendlyName dev @ ''.POWER'' @ show_nat i)
               (JBool (\<not> truthy (js_nth (lastStates dev) (i - 1))))])"
    unfolding handleZ2MSetCommand_commands [OF assms sv] c s0 relay_command_toggle [OF k t] p by simp
qed

lemma parse_toggle_commands:
  "JSON_parse (plug_host n states command_texts) (to_String (JStr l2_toggle_text)) = Some l2_toggle_cmd"
  "JSON_parse (plug_host n states command_texts) (to_String (JStr all_toggle_text)) = Some all_toggle_cmd"
  by (simp_all add: plug_host_def command_texts_def toggle_text_def l1_on_text_def both_text_def
      l2_toggle_text_def all_toggle_text_def)

lemma find_dual_topic:
  "find_first (\<lambda>d. friendly_name (z2mDevice d) = ''plug'') (sonoffDevices (dual_bridge states)) =
     Some (dual_device states)"
  by (simp add: find_first_def dual_bridge_def dual_device_def)

lemma dual_reached:
  "fst (run start [Discovery (plug_host 2 [] []) ''plug'', PowerChange ''plug'' (Some 1) (JBool True)]) =
     dual_bridge [JBool True, JNull]"
  by (simp add: Let_def dual_discovered dual_first_event)

theorem toggle_resolved_by_translator_witness:
  "handleZ2MSetCommand (plug_host 1 [] command_texts)
      (fst (processSonoffDevice (plug_host 1 [(''sonoff.0.plug.POWER'', JBool True)] []) start ''plug''))
      ''plug'' (JStr toggle_text) =
     (plug_bridge (JBool True), [SetState ''sonoff.0.plug.POWER'' (JBool False)]) \<and>
   handleZ2MSetCommand (plug_host 1 [] command_texts)
      (fst (processSonoffDevice (plug_host 1 [] []) start ''plug''))
      ''plug'' (JStr toggle_text) =
     (plug_bridge JNull, [SetState ''sonoff.0.plug.POWER'' (JBool True)]) \<and>
   handleZ2MSetCommand (plug_host 2 [] command_texts)
      (fst (run start [Discovery (plug_host 2 [] []) ''plug'', PowerChange ''plug'' (Some 1) (JBool True)]))
      ''plug'' (JStr l2_toggle_text) =
     (dual_bridge [JBool True, JNull], [SetState ''sonoff.0.plug.POWER2'' (JBool True)]) \<and>
   handleZ2MSetCommand (plug_host 2 [] command_texts)
      (fst (run start [Discovery (plug_host 2 [] []) ''plug'', PowerChange ''plug'' (Some 1) (JBool True)]))
      ''plug'' (JStr all_toggle_text) =
     (dual_bridge [JBool True, JNull],
      [SetState ''sonoff.0.plug.POWER1'' (JBool False), SetState ''sonoff.0.plug.POWER2'' (JBool True)]) \<and>
   SetState ''sonoff.0.plug.POWER1'' (JBool False) \<in>
     set (snd (handleZ2MSetCommand (plug_host 2 [] command_texts) (dual_bridge [JBool True, JNull])
                 ''plug'' (JStr all_toggle_text)))"
proof -
  have rc: "relayCount (plug_device pw) = 1" for pw by (simp add: plug_device_def)
  have st: "map_of [(''state'', JStr ''TOGGLE'')] ''state'' = Some (JStr ''TOGGLE'')" by simp
  have up: "map upper_char ''TOGGLE'' = ''TOGGLE''" "map upper_char ''toggle'' = ''TOGGLE''"
    by (simp_all add: js_eval)
  have no: "''state_l1'' \<notin> fst ` set [(''state'', JStr ''TOGGLE'')]" by simp
  have p: "JSON_parse (plug_host 1 [] command_texts) (to_String (JStr toggle_text)) =
             Some (JObj [(''state'', JStr ''TOGGLE'')])"
    using parse_command(1) [of 1 "[]"] by (simp add: toggle_cmd_def)
  have p2: "JSON_parse (plug_host 2 [] command_texts) (to_String (JStr l2_toggle_text)) =
             Some (JObj [(''state_l'' @ show_nat 2, JStr ''toggle'')])"
    using parse_toggle_commands(1) [of 2 "[]"] by (simp add: l2_toggle_cmd_def js_eval)
  have p3: "JSON_parse (plug_host 2 [] command_texts) (to_String (JStr all_toggle_text)) =
             Some (JObj [(''state_l1'', JStr ''TOGGLE''), (''state_l2'', JStr ''TOGGLE'')])"
    using parse_toggle_commands(2) [of 2 "[]"] by (simp add: all_toggle_cmd_def)
  have d: "1 < relayCount (dual_device [JBool True, JNull])" "(1::nat) \<le> 2"
    "2 \<le> relayCount (dual_device [JBool True, JNull])"
    "1 \<le> relayCount (dual_device [JBool True, JNull])"
    by (simp_all add: dual_device_def)
  have sv: "string_valued (dual_device [JBool True, JNull])
      [(''state_l1'', JStr ''TOGGLE''), (''state_l2'', JStr ''TOGGLE'')]"
    by (simp add: string_valued_def string_or_absent_def dual_device_def upt_rec numeral_2_eq_2 js_eval)
  have k1: "map_of [(''state_l1'', JStr ''TOGGLE''), (''state_l2'', JStr ''TOGGLE'')]
      (''state_l'' @ show_nat 1) = Some (JStr ''TOGGLE'')"
    by (simp add: js_eval)
  have cmds: "state_command (dual_device [JBool True, JNull])
        [(''state_l1'', JStr ''TOGGLE''), (''state_l2'', JStr ''TOGGLE'')] @
      concat (map (relay_command (dual_device [JBool True, JNull])
                [(''state_l1'', JStr ''TOGGLE''), (''state_l2'', JStr ''TOGGLE'')])
              [1 ..< Suc (relayCount (dual_device [JBool True, JNull]))]) =
      [SetState ''sonoff.0.plug.POWER1'' (JBool False), SetState ''sonoff.0.plug.POWER2'' (JBool True)]"
    by (simp add: state_command_def relay_command_def toggled_def dual_device_def powerStateId_def
        sonoffAdapter_def upt_rec numeral_2_eq_2 js_eval)
  note t1 = toggle_resolved_by_translator [OF find_plug p, where s = "''TOGGLE''"]
  note t2 = toggle_resolved_by_translator [OF find_dual_topic p2, where s = "''toggle''" and i = 2]
  note t3 = toggle_resolved_by_translator [OF find_dual_topic p3, where s = "''TOGGLE''" and i = 1]
  have c1: "handleZ2MSetCommand (plug_host 1 [] command_texts) (plug_bridge (JBool True))
      ''plug'' (JStr toggle_text) =
     (plug_bridge (JBool True), [SetState ''sonoff.0.plug.POWER'' (JBool False)])"
    using t1 [of "JBool True"] rc st up no
    by (simp add: plug_device_def sonoffAdapter_def js_eval)
  have c2: "handleZ2MSetCommand (plug_host 1 [] command_texts) (plug_bridge JNull)
      ''plug'' (JStr toggle_text) =
     (plug_bridge JNull, [SetState ''sonoff.0.plug.POWER'' (JBool True)])"
    using t1 [of JNull] rc st up no
    by (simp add: plug_device_def sonoffAdapter_def js_eval)
  have c3: "handleZ2MSetCommand (plug_host 2 [] command_texts) (dual_bridge [JBool True, JNull])
      ''plug'' (JStr l2_toggle_text) =
     (dual_bridge [JBool True, JNull], [SetState ''sonoff.0.plug.POWER2'' (JBool True)])"
    using t2 [of "[JBool True, JNull]"] d up
    by (simp add: dual_device_def sonoffAdapter_def js_eval)
  have c4: "handleZ2MSetCommand (plug_host 2 [] command_texts) (dual_bridge [JBool True, JNull])
      ''plug'' (JStr all_toggle_text) =
     (dual_bridge [JBool True, JNull],
      [SetState ''sonoff.0.plug.POWER1'' (JBool False), SetState ''sonoff.0.plug.POWER2'' (JBool True)])"
    using t3 [of "[JBool True, JNull]"] sv unfolding cmds by simp
  have c5: "SetState ''sonoff.0.plug.POWER1'' (JBool False) \<in>
     set (snd (handleZ2MSetCommand (plug_host 2 [] command_texts) (dual_bridge [JBool True, JNull])
                 ''plug'' (JStr all_toggle_text)))"
  proof -
    have ps: "powerStateId (friendlyName (dual_device [JBool True, JNull]))
        (relayCount (dual_device [JBool True, JNull])) 1 = ''sonoff.0.plug.POWER1''"
      by (simp add: dual_device_def powerStateId_def sonoffAdapter_def js_eval)
    have ls: "(\<not> truthy (js_nth (lastStates (dual_device [JBool True, JNull])) (1 - 1))) = False"
      by (simp add: dual_device_def js_eval)
    have "string_valued (dual_device [JBool True, JNull])
        [(''state_l1'', JStr ''TOGGLE''), (''state_l2'', JStr ''TOGGLE'')] \<and>
      (1::nat) \<le> 1 \<and> 1 \<le> relayCount (dual_device [JBool True, JNull]) \<and>
      map_of [(''state_l1'', JStr ''TOGGLE''), (''state_l2'', JStr ''TOGGLE'')]
        (''state_l'' @ show_nat 1) = Some (JStr ''TOGGLE'') \<and>
      map upper_char ''TOGGLE'' = ''TOGGLE''"
      by (intro conjI sv d(4) k1 up(1) order_refl)
    from t3 [of "[JBool True, JNull]", THEN conjunct2, THEN conjunct2, THEN conjunct2,
        THEN conjunct1, THEN mp, OF this]
    show ?thesis unfolding ps ls .
  qed
  show ?thesis
    unfolding dual_reached using c1 c2 c3 c4 c5
      plug_discovered [of "JBool True" "[]"] plug_discovered [of JNull "[]"]
    by simp
qed


end
